theory Spec2Isabelle
  imports Main "HOL-Library.AList"
begin

section \<open>Strings as the page script sees them\<close>

text \<open>
  Text is modelled as \<^typ>\<open>string\<close>, one \<^typ>\<open>char\<close> per code unit of the page text, for
  code units below 256. Case conversion is the ASCII one; a character outside ASCII passes
  through \<open>toLowerCase\<close> and \<open>toUpperCase\<close> unchanged.
\<close>

definition is_digit :: "char \<Rightarrow> bool" where
  \<comment> \<open>the class \<open>\d\<close> of a regular expression without the unicode flag\<close>
  "is_digit c = (48 \<le> (of_char c :: nat) \<and> (of_char c :: nat) \<le> 57)"

definition digit_val :: "char \<Rightarrow> nat" where
  "digit_val c = (of_char c :: nat) - 48"

definition is_space :: "char \<Rightarrow> bool" where
  \<comment> \<open>what \<open>String.prototype.trim\<close> strips: TAB, LF, VT, FF, CR, SP, NBSP\<close>
  "is_space c = ((of_char c :: nat) \<in> {9, 10, 11, 12, 13, 32, 160})"

definition trim :: "string \<Rightarrow> string" where
  "trim s = rev (dropWhile is_space (rev (dropWhile is_space s)))"

definition lower_char :: "char \<Rightarrow> char" where
  "lower_char c =
     (if 65 \<le> (of_char c :: nat) \<and> (of_char c :: nat) \<le> 90
      then char_of ((of_char c :: nat) + 32) else c)"

definition upper_char :: "char \<Rightarrow> char" where
  "upper_char c =
     (if 97 \<le> (of_char c :: nat) \<and> (of_char c :: nat) \<le> 122
      then char_of ((of_char c :: nat) - 32) else c)"

definition toLowerCase :: "string \<Rightarrow> string" where
  "toLowerCase s = map lower_char s"

definition toUpperCase :: "string \<Rightarrow> string" where
  "toUpperCase s = map upper_char s"

fun str_includes :: "string \<Rightarrow> string \<Rightarrow> bool" where
  \<comment> \<open>\<open>s.includes(sub)\<close>: \<open>sub\<close> occurs in \<open>s\<close> as a contiguous run\<close>
  "str_includes [] sub = (sub = [])"
| "str_includes (c # cs) sub = (take (length sub) (c # cs) = sub \<or> str_includes cs sub)"

definition is_int_text :: "string \<Rightarrow> bool" where
  \<comment> \<open>\<open>/^\d+$/\<close>\<close>
  "is_int_text s = (s \<noteq> [] \<and> list_all is_digit s)"

definition is_decimal_text :: "string \<Rightarrow> bool" where
  \<comment> \<open>\<open>/^\d+\.\d+$/\<close>\<close>
  "is_decimal_text s =
     (takeWhile is_digit s \<noteq> [] \<and>
      (case dropWhile is_digit s of
         [] \<Rightarrow> False
       | c # frac \<Rightarrow> c = CHR ''.'' \<and> is_int_text frac))"

definition is_percent_text :: "string \<Rightarrow> bool" where
  \<comment> \<open>\<open>/^\d+%$/\<close>\<close>
  "is_percent_text s = (s \<noteq> [] \<and> last s = CHR ''%'' \<and> is_int_text (butlast s))"

definition is_adr_text :: "string \<Rightarrow> bool" where
  \<comment> \<open>\<open>/^\d{2,3}$/\<close>\<close>
  "is_adr_text s = (is_int_text s \<and> (length s = 2 \<or> length s = 3))"

definition parseInt :: "string \<Rightarrow> nat" where
  \<comment> \<open>\<open>parseInt\<close> on a text that matched \<open>/^\d+$/\<close>: its decimal value. The script holds
      it as a Number, which is exact below \<open>2^53\<close>.\<close>
  "parseInt s = foldl (\<lambda>n c. 10 * n + digit_val c) 0 s"

section \<open>Extracted values and fields\<close>

datatype field =
    Kd_ratio | Hltv_rating | Win_rate | Headshot_percentage | Adr
  | Matches_played | Matches_won | Matches_lost | Matches_tied
  | Kills | Deaths | Assists | Headshots | Total_damage | Rounds_played
  | Clutch_success | Entry_success

datatype stat_value =
    IntVal nat          \<comment> \<open>a \<open>parseInt\<close> result\<close>
  | DecVal nat nat      \<comment> \<open>a \<open>parseFloat\<close> result: \<open>DecVal m k\<close> is the decimal \<open>m / 10^k\<close>\<close>
  | TextVal string      \<comment> \<open>a percentage kept as its text\<close>

definition parseFloat :: "string \<Rightarrow> stat_value" where
  \<comment> \<open>\<open>parseFloat\<close> on a text that matched \<open>/^\d+\.\d+$/\<close>\<close>
  "parseFloat s =
     DecVal (parseInt (takeWhile is_digit s @ drop 1 (dropWhile is_digit s)))
            (length (drop 1 (dropWhile is_digit s)))"

type_synonym stats = "(field \<times> stat_value) list"
  \<comment> \<open>the object \<open>extractedStats\<close>: its keys in insertion order\<close>

definition set_stat :: "field \<Rightarrow> stat_value \<Rightarrow> stats \<Rightarrow> stats" where
  \<comment> \<open>\<open>extractedStats.f = v\<close>: overwrite in place, or append a new key\<close>
  "set_stat f v acc = AList.update f v acc"

section \<open>The document\<close>

datatype node =
    TextNode string
  | Element string "string list" "node list"   \<comment> \<open>tag name, class list, child nodes\<close>

fun tag_of :: "node \<Rightarrow> string" where
  "tag_of (TextNode s) = []"
| "tag_of (Element t cs ch) = t"

fun classes_of :: "node \<Rightarrow> string list" where
  "classes_of (TextNode s) = []"
| "classes_of (Element t cs ch) = cs"

fun is_element :: "node \<Rightarrow> bool" where
  "is_element (TextNode s) = False"
| "is_element (Element t cs ch) = True"

fun child_elements :: "node \<Rightarrow> node list" where
  \<comment> \<open>\<open>el.children\<close>\<close>
  "child_elements (TextNode s) = []"
| "child_elements (Element t cs ch) = filter is_element ch"

fun textContent :: "node \<Rightarrow> string" where
  "textContent (TextNode s) = s"
| "textContent (Element t cs ch) = concat (map textContent ch)"

definition getText :: "node \<Rightarrow> string" where
  \<comment> \<open>\<open>getText(element)\<close> on an element\<close>
  "getText n = trim (textContent n)"

definition getText_opt :: "node option \<Rightarrow> string" where
  \<comment> \<open>\<open>getText(element)\<close> where the element may be \<open>null\<close>\<close>
  "getText_opt p = (case p of None \<Rightarrow> [] | Some n \<Rightarrow> getText n)"

record located =
  el :: node              \<comment> \<open>the element\<close>
  ancestors :: "node list"  \<comment> \<open>its ancestor elements, nearest first\<close>
  idx :: nat              \<comment> \<open>its position in \<open>parentElement.children\<close>\<close>

fun elements_of :: "node list \<Rightarrow> nat \<Rightarrow> node \<Rightarrow> located list"
  and children_of :: "node list \<Rightarrow> nat \<Rightarrow> node list \<Rightarrow> located list" where
  "elements_of anc i (TextNode s) = []"
| "elements_of anc i (Element t cs ch) =
     \<lparr>el = Element t cs ch, ancestors = anc, idx = i\<rparr>
       # children_of (Element t cs ch # anc) 0 ch"
| "children_of anc i [] = []"
| "children_of anc i (TextNode s # ns) = children_of anc i ns"
| "children_of anc i (Element t cs ch # ns) =
     elements_of anc i (Element t cs ch) @ children_of anc (Suc i) ns"

definition all_elements :: "node \<Rightarrow> located list" where
  \<comment> \<open>\<open>document.querySelectorAll('*')\<close>: every element, in document order\<close>
  "all_elements root = elements_of [] 0 root"

definition parentElement :: "located \<Rightarrow> node option" where
  "parentElement l = (case ancestors l of [] \<Rightarrow> None | p # _ \<Rightarrow> Some p)"

fun closest_parent :: "string \<Rightarrow> node list \<Rightarrow> node option" where
  \<comment> \<open>\<open>el.closest(t)?.parentElement\<close>, on the chain \<open>el # ancestors\<close>\<close>
  "closest_parent t [] = None"
| "closest_parent t (n # rest) =
     (if tag_of n = t then (case rest of [] \<Rightarrow> None | p # _ \<Rightarrow> Some p)
      else closest_parent t rest)"

definition first_descendant :: "node \<Rightarrow> node option" where
  \<comment> \<open>\<open>parent.querySelector('*')\<close>: the first element below \<open>parent\<close> in document order\<close>
  "first_descendant p = (case child_elements p of [] \<Rightarrow> None | c # _ \<Rightarrow> Some c)"

section \<open>The extraction script\<close>

subsection \<open>Player name\<close>

definition name_selector :: "located \<Rightarrow> bool" where
  \<comment> \<open>\<open>'h1, .player-name, .username'\<close>\<close>
  "name_selector l =
     (tag_of (el l) = ''h1'' \<or> ''player-name'' \<in> set (classes_of (el l))
      \<or> ''username'' \<in> set (classes_of (el l)))"

definition playerName :: "node \<Rightarrow> string" where
  "playerName root =
     (let els = all_elements root;
          primary = (case find name_selector els of
                       None \<Rightarrow> [] | Some l \<Rightarrow> trim (textContent (el l)));
          title = (case find (\<lambda>l. tag_of (el l) = ''title'') els of
                     None \<Rightarrow> []
                   | Some l \<Rightarrow> trim (takeWhile (\<lambda>c. c \<noteq> CHR ''-'') (textContent (el l))))
      in if primary \<noteq> [] then primary
         else if title \<noteq> [] then title
         else ''Unknown'')"

subsection \<open>Decimal pass\<close>

definition kd_step :: "stats \<Rightarrow> located \<Rightarrow> stats" where
  "kd_step acc l =
     (let text = getText (el l) in
      case closest_parent ''svg'' (el l # ancestors l) of
        None \<Rightarrow> acc
      | Some parent \<Rightarrow>
          if is_decimal_text text then
            (case first_descendant parent of
               None \<Rightarrow> acc
             | Some lab \<Rightarrow>
                 let label = toLowerCase (textContent lab) in
                 if str_includes label ''k/d'' \<or> str_includes label ''kd''
                 then set_stat Kd_ratio (parseFloat text) acc
                 else if str_includes label ''hltv'' \<or> str_includes label ''rating''
                 then set_stat Hltv_rating (parseFloat text) acc
                 else acc)
          else acc)"

definition kd_pass :: "located list \<Rightarrow> stats \<Rightarrow> stats" where
  \<comment> \<open>\<open>document.querySelectorAll('text').forEach(...)\<close>\<close>
  "kd_pass els acc = foldl kd_step acc (filter (\<lambda>l. tag_of (el l) = ''text'') els)"

subsection \<open>Percentage pass\<close>

definition pct_step :: "stats \<Rightarrow> located \<Rightarrow> stats" where
  "pct_step acc l =
     (let text = getText (el l) in
      if is_percent_text text then
        (let context = (case parentElement l of
                          None \<Rightarrow> [] | Some p \<Rightarrow> toLowerCase (textContent p)) in
         if str_includes context ''win'' then set_stat Win_rate (TextVal text) acc
         else if str_includes context ''hs'' \<or> str_includes context ''headshot''
         then set_stat Headshot_percentage (TextVal text) acc
         else if str_includes context ''clutch'' then set_stat Clutch_success (TextVal text) acc
         else if str_includes context ''entry'' then set_stat Entry_success (TextVal text) acc
         else acc)
      else acc)"

definition pct_pass :: "located list \<Rightarrow> stats \<Rightarrow> stats" where
  "pct_pass els acc = foldl pct_step acc els"

subsection \<open>Integer pass\<close>

definition route_int :: "string \<Rightarrow> nat \<Rightarrow> field option" where
  \<comment> \<open>the \<open>if / else if\<close> chain under \<open>num > 0\<close>\<close>
  "route_int context num =
     (if str_includes context ''kill'' \<and> \<not> str_includes context ''death'' then Some Kills
      else if str_includes context ''death'' \<and> \<not> str_includes context ''kill'' then Some Deaths
      else if str_includes context ''assist'' then Some Assists
      else if str_includes context ''headshot'' \<and> num < 50000 then Some Headshots
      else if str_includes context ''played'' \<or> str_includes context ''match'' then Some Matches_played
      else if str_includes context ''won'' \<and> num < 10000 then Some Matches_won
      else if str_includes context ''lost'' \<and> num < 10000 then Some Matches_lost
      else if str_includes context ''round'' \<and> num > 1000 then Some Rounds_played
      else if str_includes context ''damage'' \<and> num > 100000 then Some Total_damage
      else None)"

definition int_context :: "located \<Rightarrow> string" where
  "int_context l =
     toLowerCase (getText (el l) @ '' '' @ getText_opt (parentElement l))"

definition int_route_step :: "stats \<Rightarrow> located \<Rightarrow> stats" where
  "int_route_step acc l =
     (let text = getText (el l); context = int_context l in
      if is_int_text text then
        (let num = parseInt text in
         if num > 0 then
           (case route_int context num of
              None \<Rightarrow> acc
            | Some f \<Rightarrow> set_stat f (IntVal num) acc)
         else acc)
      else acc)"

definition adr_step :: "stats \<Rightarrow> located \<Rightarrow> stats" where
  "adr_step acc l =
     (let text = getText (el l); context = int_context l in
      if is_adr_text text \<and> str_includes context ''adr''
      then set_stat Adr (IntVal (parseInt text)) acc
      else acc)"

definition int_step :: "stats \<Rightarrow> located \<Rightarrow> stats" where
  "int_step acc l = adr_step (int_route_step acc l) l"

definition int_pass :: "located list \<Rightarrow> stats \<Rightarrow> stats" where
  "int_pass els acc = foldl int_step acc els"

subsection \<open>Label pass\<close>

definition statLabels :: "(string \<times> field) list" where
  "statLabels =
     [(''PLAYED'', Matches_played), (''KILLS'', Kills), (''DAMAGE'', Total_damage),
      (''WON'', Matches_won), (''DEATHS'', Deaths), (''ROUNDS'', Rounds_played),
      (''LOST'', Matches_lost), (''ASSISTS'', Assists), (''TIED'', Matches_tied),
      (''HEADSHOTS'', Headshots)]"

definition label_window :: "located \<Rightarrow> node list" where
  \<comment> \<open>\<open>siblings[i]\<close> for \<open>i\<close> from \<open>max(0, index - 2)\<close> up to, not including,
      \<open>min(siblings.length, index + 3)\<close>; an element without a parent has no siblings\<close>
  "label_window l =
     (case parentElement l of
        None \<Rightarrow> []
      | Some p \<Rightarrow> drop (idx l - 2) (take (idx l + 3) (child_elements p)))"

definition label_step :: "located list \<Rightarrow> stats \<Rightarrow> string \<times> field \<Rightarrow> stats" where
  "label_step els acc lf =
     (case find (\<lambda>l. toUpperCase (getText (el l)) = fst lf) els of
        None \<Rightarrow> acc
      | Some l \<Rightarrow>
          (case find (\<lambda>s. is_int_text (getText s) \<and> getText s \<noteq> fst lf) (label_window l) of
             None \<Rightarrow> acc
           | Some s \<Rightarrow> set_stat (snd lf) (IntVal (parseInt (getText s))) acc))"

definition label_pass :: "located list \<Rightarrow> stats \<Rightarrow> stats" where
  "label_pass els acc = foldl (label_step els) acc statLabels"

subsection \<open>The whole script\<close>

definition run_passes :: "node \<Rightarrow> stats \<Rightarrow> stats" where
  \<comment> \<open>the four passes, in the order of the script, on the object \<open>acc\<close>\<close>
  "run_passes root acc =
     (let els = all_elements root in
      label_pass els (int_pass els (pct_pass els (kd_pass els acc))))"

definition extractStats :: "node \<Rightarrow> stats" where
  \<comment> \<open>\<open>const extractedStats = {}\<close>, then the passes\<close>
  "extractStats root = run_passes root []"

section \<open>The scraper service\<close>

record page =
  document :: node
  pathname :: string   \<comment> \<open>\<open>window.location.pathname\<close>\<close>
  href :: string       \<comment> \<open>\<open>window.location.href\<close>\<close>

record player_info =
  info_steam_id64 :: string
  player_name :: string
  profile_url :: string

definition evaluate :: "page \<Rightarrow> player_info \<times> stats" where
  \<comment> \<open>the callback of \<open>page.evaluate\<close>: \<open>{ player_info, stats }\<close>\<close>
  "evaluate p =
     (\<lparr>info_steam_id64 = rev (takeWhile (\<lambda>c. c \<noteq> CHR ''/'') (rev (pathname p))),
       player_name = playerName (document p),
       profile_url = href p\<rparr>,
      extractStats (document p))"

datatype fetch =
    InitFault string      \<comment> \<open>\<open>this.initialize()\<close> throws, before the \<open>try\<close>\<close>
  | NewPageFault string   \<comment> \<open>\<open>newPage()\<close> throws: inside the \<open>try\<close>, no page to close\<close>
  | NavError string       \<comment> \<open>a throw inside the \<open>try\<close> once the page exists: navigation,
                              a response that is not ok, the stats elements never appear\<close>
  | Loaded page           \<comment> \<open>the page is rendered and the script runs on it\<close>

record render =
  fetched :: fetch
  close_fault :: "string option"   \<comment> \<open>\<open>page.close()\<close> throws in the \<open>finally\<close>\<close>
  elapsed :: nat                   \<comment> \<open>\<open>Date.now() - startTime\<close>\<close>

datatype scrape_result =
    ScrapeOk "player_info \<times> stats" nat nat   \<comment> \<open>\<open>data\<close>, \<open>executionTime\<close>, \<open>statsCount\<close>\<close>
  | ScrapeFailed string nat                    \<comment> \<open>\<open>error\<close>, \<open>executionTime\<close>; \<open>statsCount\<close> is 0\<close>

fun success :: "scrape_result \<Rightarrow> bool" where
  "success (ScrapeOk d t n) = True"
| "success (ScrapeFailed e t) = False"

definition no_stats_message :: string where
  "no_stats_message = ''No stats data found - player might have no recorded matches''"

definition finally_close :: "render \<Rightarrow> scrape_result \<Rightarrow> string + scrape_result" where
  \<comment> \<open>\<open>finally { if (page) await page.close() }\<close>: a throw there replaces the return value\<close>
  "finally_close r res = (case close_fault r of Some m \<Rightarrow> Inl m | None \<Rightarrow> Inr res)"

definition scrapePlayerStats :: "render \<Rightarrow> string + scrape_result" where
  \<comment> \<open>\<open>Inl\<close> is an exception that leaves the method\<close>
  "scrapePlayerStats r =
     (case fetched r of
        InitFault m \<Rightarrow> Inl m
      | NewPageFault m \<Rightarrow> Inr (ScrapeFailed m (elapsed r))
      | NavError m \<Rightarrow> finally_close r (ScrapeFailed m (elapsed r))
      | Loaded p \<Rightarrow>
          (let ev = evaluate p in
           if length (snd ev) = 0
           then finally_close r (ScrapeFailed no_stats_message (elapsed r))
           else finally_close r (ScrapeOk ev (elapsed r) (length (snd ev)))))"

section \<open>The database service\<close>

datatype status = Pending | Processing | Completed | Failed

record steam_row =
  row_id :: nat
  steam_id64 :: string
  status :: status
  priority :: int
  created_at :: nat
  updated_at :: nat

record stat_row =
  ps_steam_id64 :: string
  ps_player_name :: "string option"
  ps_profile_url :: "string option"
  ps_stats :: "field \<Rightarrow> stat_value option"   \<comment> \<open>the seventeen stat columns; \<open>None\<close> is NULL\<close>
  last_scraped :: nat
  scrape_success :: bool
  error_message :: "string option"

datatype log_status = Started | Succeeded | LogFailed

record log_row =
  log_id :: nat
  log_steam_id64 :: string
  log_status :: log_status
  message :: string
  execution_time :: "nat option"
  stats_extracted :: nat

record db =
  steam_ids :: "steam_row list"
  player_stats :: "stat_row list"
  scrape_logs :: "log_row list"
  clock :: nat    \<comment> \<open>\<open>CURRENT_TIMESTAMP\<close>\<close>

subsection \<open>Batch selection\<close>

definition row_le :: "steam_row \<Rightarrow> steam_row \<Rightarrow> bool" where
  \<comment> \<open>\<open>ORDER BY priority DESC, created_at ASC\<close>\<close>
  "row_le a b =
     (priority a > priority b \<or> (priority a = priority b \<and> created_at a \<le> created_at b))"

fun insert_row :: "steam_row \<Rightarrow> steam_row list \<Rightarrow> steam_row list" where
  "insert_row r [] = [r]"
| "insert_row r (x # xs) = (if row_le r x then r # x # xs else x # insert_row r xs)"

definition order_rows :: "steam_row list \<Rightarrow> steam_row list" where
  \<comment> \<open>rows that the \<open>ORDER BY\<close> does not tell apart keep their table order\<close>
  "order_rows rows = foldr insert_row rows []"

definition getPendingSteamIds :: "nat \<Rightarrow> steam_row list \<Rightarrow> steam_row list" where
  \<comment> \<open>the query selects the columns \<open>steam_id64, id, priority\<close>; the whole row is kept
      here so that the order of the result can be stated\<close>
  "getPendingSteamIds limit rows =
     take limit (order_rows (filter (\<lambda>r. status r = Pending) rows))"

subsection \<open>Status, stats and logs\<close>

definition updateSteamIdStatus :: "string \<Rightarrow> status \<Rightarrow> db \<Rightarrow> db" where
  "updateSteamIdStatus sid st d =
     d\<lparr>steam_ids :=
         map (\<lambda>r. if steam_id64 r = sid then r\<lparr>status := st, updated_at := clock d\<rparr> else r)
           (steam_ids d)\<rparr>"

definition or_null :: "stat_value option \<Rightarrow> stat_value option" where
  \<comment> \<open>\<open>playerData.f || null\<close>: a missing key, the number 0 and the empty text give NULL\<close>
  "or_null v =
     (case v of
        None \<Rightarrow> None
      | Some (IntVal n) \<Rightarrow> if n = 0 then None else Some (IntVal n)
      | Some (DecVal m k) \<Rightarrow> if m = 0 then None else Some (DecVal m k)
      | Some (TextVal s) \<Rightarrow> if s = [] then None else Some (TextVal s))"

definition str_or_null :: "string \<Rightarrow> string option" where
  "str_or_null s = (if s = [] then None else Some s)"

definition upsert :: "string \<Rightarrow> (stat_row \<Rightarrow> stat_row) \<Rightarrow> stat_row \<Rightarrow> stat_row list \<Rightarrow> stat_row list" where
  \<comment> \<open>\<open>INSERT ... ON DUPLICATE KEY UPDATE\<close> on the unique key \<open>steam_id64\<close>\<close>
  "upsert sid upd new rows =
     (if list_ex (\<lambda>r. ps_steam_id64 r = sid) rows
      then map (\<lambda>r. if ps_steam_id64 r = sid then upd r else r) rows
      else rows @ [new])"

definition success_row :: "string \<Rightarrow> player_info \<times> stats \<Rightarrow> nat \<Rightarrow> stat_row" where
  "success_row sid playerData now =
     \<lparr>ps_steam_id64 = sid,
      ps_player_name = str_or_null (player_name (fst playerData)),
      ps_profile_url = str_or_null (profile_url (fst playerData)),
      ps_stats = (\<lambda>f. or_null (map_of (snd playerData) f)),
      last_scraped = now,
      scrape_success = True,
      error_message = None\<rparr>"

definition savePlayerStats :: "string \<Rightarrow> player_info \<times> stats \<Rightarrow> db \<Rightarrow> db" where
  \<comment> \<open>on a duplicate key every column of the statement is set from \<open>VALUES(...)\<close>,
      \<open>scrape_success = TRUE\<close> and \<open>error_message = NULL\<close>\<close>
  "savePlayerStats sid playerData d =
     d\<lparr>player_stats :=
         upsert sid
           (\<lambda>old. old\<lparr>ps_player_name := ps_player_name (success_row sid playerData (clock d)),
                      ps_profile_url := ps_profile_url (success_row sid playerData (clock d)),
                      ps_stats := ps_stats (success_row sid playerData (clock d)),
                      last_scraped := clock d,
                      scrape_success := True,
                      error_message := None\<rparr>)
           (success_row sid playerData (clock d))
           (player_stats d)\<rparr>"

definition error_row :: "string \<Rightarrow> string \<Rightarrow> nat \<Rightarrow> stat_row" where
  \<comment> \<open>the row inserted when there is none: the columns not named take their defaults,
      NULL but for \<open>matches_tied INT DEFAULT 0\<close>\<close>
  "error_row sid errorMessage now =
     \<lparr>ps_steam_id64 = sid,
      ps_player_name = None,
      ps_profile_url = None,
      ps_stats = (\<lambda>f. if f = Matches_tied then Some (IntVal 0) else None),
      last_scraped = now,
      scrape_success = False,
      error_message = Some errorMessage\<rparr>"

definition savePlayerStatsError :: "string \<Rightarrow> string \<Rightarrow> db \<Rightarrow> db" where
  "savePlayerStatsError sid errorMessage d =
     d\<lparr>player_stats :=
         upsert sid
           (\<lambda>old. old\<lparr>last_scraped := clock d,
                      scrape_success := False,
                      error_message := Some errorMessage\<rparr>)
           (error_row sid errorMessage (clock d))
           (player_stats d)\<rparr>"

definition logScrapeStart :: "string \<Rightarrow> db \<Rightarrow> nat \<times> db" where
  \<comment> \<open>returns \<open>insertId\<close>, the next value of the auto-increment key\<close>
  "logScrapeStart sid d =
     (let new_id = Suc (foldr max (map log_id (scrape_logs d)) 0) in
      (new_id,
       d\<lparr>scrape_logs := scrape_logs d @
            [\<lparr>log_id = new_id, log_steam_id64 = sid, log_status = Started,
              message = ''Scraping started'', execution_time = None,
              stats_extracted = 0\<rparr>]\<rparr>))"

definition logScrapeSuccess :: "nat \<Rightarrow> string \<Rightarrow> nat \<Rightarrow> nat \<Rightarrow> db \<Rightarrow> db" where
  "logScrapeSuccess logId sid executionTime statsExtracted d =
     d\<lparr>scrape_logs :=
         map (\<lambda>l. if log_id l = logId \<and> log_steam_id64 l = sid
                  then l\<lparr>log_status := Succeeded,
                         message := ''Scraping completed successfully'',
                         execution_time := Some executionTime,
                         stats_extracted := statsExtracted\<rparr>
                  else l)
           (scrape_logs d)\<rparr>"

definition logScrapeFailure :: "nat \<Rightarrow> string \<Rightarrow> nat \<Rightarrow> string \<Rightarrow> db \<Rightarrow> db" where
  "logScrapeFailure logId sid executionTime errorMessage d =
     d\<lparr>scrape_logs :=
         map (\<lambda>l. if log_id l = logId \<and> log_steam_id64 l = sid
                  then l\<lparr>log_status := LogFailed,
                         message := errorMessage,
                         execution_time := Some executionTime\<rparr>
                  else l)
           (scrape_logs d)\<rparr>"

subsection \<open>Top players\<close>

datatype js_arg =
    Undefined       \<comment> \<open>the argument is left out\<close>
  | Str string      \<comment> \<open>a string\<close>
  | NotAString      \<comment> \<open>any other value: it is equal to no string of the whitelist\<close>

definition validOrderBy :: "string list" where
  "validOrderBy =
     [''kd_ratio'', ''hltv_rating'', ''matches_played'', ''kills'', ''adr'', ''matches_won'']"

definition order_column :: "js_arg \<Rightarrow> string" where
  \<comment> \<open>the value of \<open>orderBy\<close> when the query text is built\<close>
  "order_column arg =
     (case arg of
        Undefined \<Rightarrow> ''kd_ratio''
      | Str s \<Rightarrow> if s \<in> set validOrderBy then s else ''kd_ratio''
      | NotAString \<Rightarrow> ''kd_ratio'')"

definition top_players_query :: "string \<Rightarrow> string" where
  \<comment> \<open>the template of \<open>getTopPlayers\<close>, its line breaks and indentation written as one
      space\<close>
  "top_players_query col =
     ''SELECT steam_id64, player_name, '' @ col @ '', matches_played, last_scraped''
     @ '' FROM player_stats''
     @ '' WHERE scrape_success = TRUE AND '' @ col @ '' IS NOT NULL''
     @ '' ORDER BY '' @ col @ '' DESC''
     @ '' LIMIT ?''"

definition getTopPlayers_query :: "js_arg \<Rightarrow> string" where
  \<comment> \<open>the text that \<open>getTopPlayers(limit, orderBy)\<close> hands to \<open>dbManager.execute\<close>\<close>
  "getTopPlayers_query arg = top_players_query (order_column arg)"

section \<open>The scraper manager\<close>

record manager =
  isRunning :: bool
  batchSize :: nat
  processedCount :: nat
  successCount :: nat
  failureCount :: nat

record world =
  mgr :: manager
  store :: db

datatype site =
    SLogStart                                  \<comment> \<open>before the \<open>try\<close>\<close>
  | SSetProcessing                             \<comment> \<open>inside the \<open>try\<close>\<close>
  | SSaveStats | SSetCompleted | SLogSuccess   \<comment> \<open>the branch \<open>result.success\<close>\<close>
  | SSaveError | SSetFailed | SLogFailure      \<comment> \<open>the \<open>else\<close> branch\<close>
  | HSaveError | HSetFailed | HLogFailure      \<comment> \<open>inside the \<open>catch\<close>\<close>

text \<open>
  What the manager does not decide: what the browser renders for an identifier, which
  database call of an item's procedure throws (and with what message), whether the operator
  asks to stop while the item is in flight, and whether the batch query throws.
\<close>

record env =
  render_of :: "string \<Rightarrow> render"
  db_fault :: "string \<Rightarrow> site \<Rightarrow> string option"
  stop_during :: "string \<Rightarrow> bool"
  select_fault :: "string option"

datatype item_result =
    ItemOk string nat         \<comment> \<open>\<open>{ success: true, steamId64, stats }\<close>\<close>
  | ItemFailed string string  \<comment> \<open>\<open>{ success: false, steamId64, error }\<close>\<close>

fun item_success :: "item_result \<Rightarrow> bool" where
  "item_success (ItemOk sid n) = True"
| "item_success (ItemFailed sid e) = False"

definition stopScraping :: "manager \<Rightarrow> manager" where
  "stopScraping m = (if \<not> isRunning m then m else m\<lparr>isRunning := False\<rparr>)"

definition operator_stop :: "env \<Rightarrow> string \<Rightarrow> world \<Rightarrow> world" where
  \<comment> \<open>\<open>stopScraping\<close> runs, if the operator asks for it, while the item awaits its
      first call\<close>
  "operator_stop e sid w = (if stop_during e sid then w\<lparr>mgr := stopScraping (mgr w)\<rparr> else w)"

definition db_call :: "env \<Rightarrow> string \<Rightarrow> site \<Rightarrow> (db \<Rightarrow> db) \<Rightarrow> world \<Rightarrow> string + world" where
  \<comment> \<open>one awaited call of the database service: it throws and changes nothing, or it
      runs\<close>
  "db_call e sid s f w =
     (case db_fault e sid s of
        Some m \<Rightarrow> Inl m
      | None \<Rightarrow> Inr (w\<lparr>store := f (store w)\<rparr>))"

definition count_success :: "world \<Rightarrow> world" where
  "count_success w = w\<lparr>mgr := (mgr w)\<lparr>successCount := successCount (mgr w) + 1\<rparr>\<rparr>"

definition count_failure :: "world \<Rightarrow> world" where
  "count_failure w = w\<lparr>mgr := (mgr w)\<lparr>failureCount := failureCount (mgr w) + 1\<rparr>\<rparr>"

definition count_processed :: "world \<Rightarrow> world" where
  "count_processed w = w\<lparr>mgr := (mgr w)\<lparr>processedCount := processedCount (mgr w) + 1\<rparr>\<rparr>"

definition success_branch ::
  "env \<Rightarrow> string \<Rightarrow> nat \<Rightarrow> player_info \<times> stats \<Rightarrow> nat \<Rightarrow> nat \<Rightarrow> world \<Rightarrow> (string + item_result) \<times> world" where
  "success_branch e sid logId playerData t n w =
     (case db_call e sid SSaveStats (savePlayerStats sid playerData) w of
        Inl m \<Rightarrow> (Inl m, w)
      | Inr w1 \<Rightarrow>
     (case db_call e sid SSetCompleted (updateSteamIdStatus sid Completed) w1 of
        Inl m \<Rightarrow> (Inl m, w1)
      | Inr w2 \<Rightarrow>
     (case db_call e sid SLogSuccess (logScrapeSuccess logId sid t n) w2 of
        Inl m \<Rightarrow> (Inl m, w2)
      | Inr w3 \<Rightarrow> (Inr (ItemOk sid n), count_success w3))))"

definition failure_branch ::
  "env \<Rightarrow> string \<Rightarrow> nat \<Rightarrow> string \<Rightarrow> nat \<Rightarrow> world \<Rightarrow> (string + item_result) \<times> world" where
  "failure_branch e sid logId err t w =
     (case db_call e sid SSaveError (savePlayerStatsError sid err) w of
        Inl m \<Rightarrow> (Inl m, w)
      | Inr w1 \<Rightarrow>
     (case db_call e sid SSetFailed (updateSteamIdStatus sid Failed) w1 of
        Inl m \<Rightarrow> (Inl m, w1)
      | Inr w2 \<Rightarrow>
     (case db_call e sid SLogFailure (logScrapeFailure logId sid t err) w2 of
        Inl m \<Rightarrow> (Inl m, w2)
      | Inr w3 \<Rightarrow> (Inr (ItemFailed sid err), count_failure w3))))"

definition try_block ::
  "env \<Rightarrow> string \<Rightarrow> nat \<Rightarrow> world \<Rightarrow> (string + item_result) \<times> world" where
  \<comment> \<open>the body of the \<open>try\<close>: \<open>Inl\<close> is what it throws, with the state at the throw\<close>
  "try_block e sid logId w =
     (case db_call e sid SSetProcessing (updateSteamIdStatus sid Processing) w of
        Inl m \<Rightarrow> (Inl m, w)
      | Inr w1 \<Rightarrow>
          (case scrapePlayerStats (render_of e sid) of
             Inl m \<Rightarrow> (Inl m, w1)
           | Inr (ScrapeOk playerData t n) \<Rightarrow> success_branch e sid logId playerData t n w1
           | Inr (ScrapeFailed err t) \<Rightarrow> failure_branch e sid logId err t w1))"

definition catch_block ::
  "env \<Rightarrow> string \<Rightarrow> nat \<Rightarrow> string \<Rightarrow> world \<Rightarrow> (string + item_result) \<times> world" where
  \<comment> \<open>the \<open>catch\<close>: its own calls are not guarded\<close>
  "catch_block e sid logId err w =
     (case db_call e sid HSaveError (savePlayerStatsError sid err) w of
        Inl m \<Rightarrow> (Inl m, w)
      | Inr w1 \<Rightarrow>
     (case db_call e sid HSetFailed (updateSteamIdStatus sid Failed) w1 of
        Inl m \<Rightarrow> (Inl m, w1)
      | Inr w2 \<Rightarrow>
     (case db_call e sid HLogFailure (logScrapeFailure logId sid 0 err) w2 of
        Inl m \<Rightarrow> (Inl m, w2)
      | Inr w3 \<Rightarrow> (Inr (ItemFailed sid err), count_failure w3))))"

definition processSingleSteamId ::
  "env \<Rightarrow> string \<Rightarrow> world \<Rightarrow> (string + item_result) \<times> world" where
  \<comment> \<open>\<open>logScrapeStart\<close> is awaited before the \<open>try\<close>; the \<open>finally\<close> counts the item
      whenever the \<open>try\<close> was entered\<close>
  "processSingleSteamId e sid w =
     (let w0 = operator_stop e sid w in
      case db_fault e sid SLogStart of
        Some m \<Rightarrow> (Inl m, w0)
      | None \<Rightarrow>
          (let (logId, d) = logScrapeStart sid (store w0);
               w1 = w0\<lparr>store := d\<rparr> in
           case try_block e sid logId w1 of
             (Inr r, w2) \<Rightarrow> (Inr r, count_processed w2)
           | (Inl err, w2) \<Rightarrow>
               (case catch_block e sid logId err w2 of
                  (res, w3) \<Rightarrow> (res, count_processed w3))))"

record batch_result =
  processed :: nat
  successful :: "nat option"
  failed :: "nat option"
  completed :: bool

fun batch_loop ::
  "env \<Rightarrow> steam_row list \<Rightarrow> item_result list \<Rightarrow> world \<Rightarrow> (string + item_result list) \<times> world" where
  \<comment> \<open>\<open>for (const { steam_id64 } of pendingSteamIds)\<close>; the delay between two items only
      waits\<close>
  "batch_loop e [] results w = (Inr results, w)"
| "batch_loop e (p # ps) results w =
     (if \<not> isRunning (mgr w) then (Inr results, w)
      else
        (case processSingleSteamId e (steam_id64 p) w of
           (Inl m, w') \<Rightarrow> (Inl m, w')
         | (Inr r, w') \<Rightarrow> batch_loop e ps (results @ [r]) w'))"

definition processBatch :: "env \<Rightarrow> world \<Rightarrow> (string + batch_result) \<times> world" where
  \<comment> \<open>the \<open>catch\<close> of \<open>processBatch\<close> logs and throws again\<close>
  "processBatch e w =
     (case select_fault e of
        Some m \<Rightarrow> (Inl m, w)
      | None \<Rightarrow>
          (let pendingSteamIds = getPendingSteamIds (batchSize (mgr w)) (steam_ids (store w)) in
           if length pendingSteamIds = 0
           then (Inr \<lparr>processed = 0, successful = None, failed = None, completed = True\<rparr>, w)
           else
             (case batch_loop e pendingSteamIds [] w of
                (Inl m, w') \<Rightarrow> (Inl m, w')
              | (Inr results, w') \<Rightarrow>
                  (Inr \<lparr>processed = length results,
                        successful = Some (length (filter item_success results)),
                        failed = Some (length (filter (\<lambda>r. \<not> item_success r) results)),
                        completed = False\<rparr>, w'))))"

section \<open>Notions used in the statements and proofs\<close>

text \<open>
  None of these is a function of the program. \<open>replay\<close> applies a list of assignments to an
  object, and \<open>replays\<close> holds of the functions on objects that are such a replay;
  \<open>routed_fields\<close> names the targets of the keyword routing; \<open>rows_of\<close> selects the
  queue rows of an identifier; \<open>unguarded_ok\<close> says that the calls of an item's procedure
  that stand outside every \<open>try\<close> do not throw.
\<close>

definition replay :: "(field \<times> stat_value) list \<Rightarrow> stats \<Rightarrow> stats" where
  "replay us acc = foldl (\<lambda>a u. set_stat (fst u) (snd u) a) acc us"

definition replays :: "(stats \<Rightarrow> stats) \<Rightarrow> bool" where
  "replays g = (\<exists>us. \<forall>acc. g acc = replay us acc)"

definition routed_fields :: "field set" where
  \<comment> \<open>the fields that the keyword routing of the integer pass can assign\<close>
  "routed_fields = {Kills, Deaths, Assists, Headshots, Matches_played, Matches_won,
                    Matches_lost, Rounds_played, Total_damage}"

definition rows_of :: "db \<Rightarrow> string \<Rightarrow> steam_row list" where
  \<comment> \<open>the queue rows of an identifier\<close>
  "rows_of d sid = filter (\<lambda>r. steam_id64 r = sid) (steam_ids d)"

definition unguarded_ok :: "env \<Rightarrow> string \<Rightarrow> bool" where
  \<comment> \<open>the calls of an item's procedure that no \<open>try\<close> guards do not throw:
      \<open>logScrapeStart\<close> and the three calls of the \<open>catch\<close>\<close>
  "unguarded_ok e sid =
     (db_fault e sid SLogStart = None \<and> db_fault e sid HSaveError = None
      \<and> db_fault e sid HSetFailed = None \<and> db_fault e sid HLogFailure = None)"

definition written_as_failure :: "string \<Rightarrow> db \<Rightarrow> db \<Rightarrow> bool" where
  \<comment> \<open>every stat row of \<open>d'\<close> is a row of \<open>d\<close> or a failure row of \<open>sid\<close>\<close>
  "written_as_failure sid d d' =
     (\<forall>r \<in> set (player_stats d').
        r \<in> set (player_stats d) \<or> (ps_steam_id64 r = sid \<and> \<not> scrape_success r))"

definition counted :: "manager \<Rightarrow> (string + item_result) \<Rightarrow> manager" where
  \<comment> \<open>the counters once the \<open>try\<close> has given \<open>res\<close>\<close>
  "counted m res =
     (case res of
        Inl e \<Rightarrow> m
      | Inr r \<Rightarrow> if item_success r then m\<lparr>successCount := successCount m + 1\<rparr>
                 else m\<lparr>failureCount := failureCount m + 1\<rparr>)"

section \<open>Example inputs\<close>

definition ex_row :: "nat \<Rightarrow> string \<Rightarrow> status \<Rightarrow> int \<Rightarrow> nat \<Rightarrow> steam_row" where
  "ex_row i sid st pr t =
     \<lparr>row_id = i, steam_id64 = sid, status = st, priority = pr, created_at = t, updated_at = t\<rparr>"

definition ex_stat_row :: stat_row where
  "ex_stat_row =
     \<lparr>ps_steam_id64 = ''76561198000000001'',
      ps_player_name = Some ''s1mple'',
      ps_profile_url = Some ''https://csgostats.gg/player/76561198000000001'',
      ps_stats = (\<lambda>f. if f = Kills then Some (IntVal 4821)
                      else if f = Kd_ratio then Some (DecVal 134 2) else None),
      last_scraped = 100,
      scrape_success = True,
      error_message = None\<rparr>"

definition ex_db :: db where
  "ex_db = \<lparr>steam_ids = [], player_stats = [ex_stat_row], scrape_logs = [], clock = 200\<rparr>"

definition ex_info :: player_info where
  "ex_info = \<lparr>info_steam_id64 = ''76561198000000001'', player_name = ''s1mple'',
              profile_url = ''https://csgostats.gg/player/76561198000000001''\<rparr>"

definition stat_node :: "string \<Rightarrow> string \<Rightarrow> node" where
  \<comment> \<open>\<open><div>label<span>value</span></div>\<close>\<close>
  "stat_node label val = Element ''div'' [] [TextNode label, Element ''span'' [] [TextNode val]]"

definition value_in :: "string \<Rightarrow> string \<Rightarrow> located" where
  \<comment> \<open>the \<open>span\<close> of \<open>stat_node label val\<close>, as the script meets it\<close>
  "value_in label val =
     \<lparr>el = Element ''span'' [] [TextNode val], ancestors = [stat_node label val], idx = 0\<rparr>"

definition c1_doc :: node where
  "c1_doc = Element ''body'' []
     [stat_node ''Kills '' ''10'', stat_node ''Kills '' ''20'',
      Element ''div'' [] [Element ''span'' [] [TextNode ''KILLS''],
                          Element ''span'' [] [TextNode ''0'']]]"

definition c6_doc :: node where
  "c6_doc = Element ''body'' []
     [stat_node ''Kills: '' ''4821'', stat_node ''Deaths '' ''3190'',
      stat_node ''Rounds Played '' ''18452'']"

definition zero_doc :: node where
  "zero_doc = Element ''body'' []
     [Element ''div'' [] [Element ''span'' [] [TextNode ''KILLS''],
                          Element ''span'' [] [TextNode ''0'']]]"

definition kd_node :: "string \<Rightarrow> string \<Rightarrow> node" where
  \<comment> \<open>\<open><div><span>label</span><svg><text>value</text></svg></div>\<close>\<close>
  "kd_node label val =
     Element ''div'' []
       [Element ''span'' [] [TextNode label],
        Element ''svg'' [] [Element ''text'' [] [TextNode val]]]"

definition kd_in :: "string \<Rightarrow> string \<Rightarrow> located" where
  \<comment> \<open>the \<open>text\<close> element of \<open>kd_node label val\<close>, as the script meets it\<close>
  "kd_in label val =
     \<lparr>el = Element ''text'' [] [TextNode val],
      ancestors = [Element ''svg'' [] [Element ''text'' [] [TextNode val]], kd_node label val],
      idx = 0\<rparr>"

definition small_page :: "string \<Rightarrow> page" where
  "small_page sid =
     \<lparr>document = Element ''body'' []
        [Element ''h1'' [] [TextNode ''Player''], stat_node ''Kills '' ''10''],
      pathname = ''/player/'' @ sid,
      href = ''https://csgostats.gg/player/'' @ sid\<rparr>"

definition empty_page :: "string \<Rightarrow> page" where
  "empty_page sid =
     \<lparr>document = Element ''body'' []
        [Element ''h1'' [] [TextNode ''Player''],
         Element ''p'' [] [TextNode ''No matches recorded'']],
      pathname = ''/player/'' @ sid,
      href = ''https://csgostats.gg/player/'' @ sid\<rparr>"

definition ex_render :: "fetch \<Rightarrow> render" where
  "ex_render f = \<lparr>fetched = f, close_fault = None, elapsed = 1200\<rparr>"

definition ex_env :: env where
  \<comment> \<open>the page of B does not load; nothing else goes wrong\<close>
  "ex_env =
     \<lparr>render_of = (\<lambda>sid. ex_render (if sid = ''B''
                       then NavError ''HTTP 500: Internal Server Error''
                       else Loaded (small_page sid))),
      db_fault = (\<lambda>sid s. None),
      stop_during = (\<lambda>sid. False),
      select_fault = None\<rparr>"

definition empty_env :: env where
  \<comment> \<open>every page loads and holds no stat\<close>
  "empty_env = ex_env\<lparr>render_of := (\<lambda>sid. ex_render (Loaded (empty_page sid)))\<rparr>"

definition log_fault_env :: env where
  \<comment> \<open>\<open>logScrapeStart\<close> throws for B\<close>
  "log_fault_env =
     ex_env\<lparr>db_fault := (\<lambda>sid s. if sid = ''B'' \<and> s = SLogStart
                                 then Some ''ECONNRESET'' else None)\<rparr>"

definition catch_fault_env :: env where
  \<comment> \<open>for B the failure upsert throws, in the \<open>else\<close> branch and again in the \<open>catch\<close>\<close>
  "catch_fault_env =
     ex_env\<lparr>db_fault := (\<lambda>sid s. if sid = ''B'' \<and> (s = SSaveError \<or> s = HSaveError)
                                 then Some ''ECONNRESET'' else None)\<rparr>"



definition ex_world :: world where
  "ex_world =
     \<lparr>mgr = \<lparr>isRunning = True, batchSize = 5, processedCount = 0, successCount = 0,
              failureCount = 0\<rparr>,
      store = \<lparr>steam_ids = [ex_row 1 ''A'' Pending 5 20, ex_row 2 ''B'' Pending 5 30,
                             ex_row 3 ''C'' Pending 1 10],
                player_stats = [], scrape_logs = [], clock = 100\<rparr>\<rparr>"

section \<open>Properties of batch selection\<close>

lemma row_le_total: "row_le a b \<or> row_le b a"
  by (auto simp: row_le_def)

lemma row_le_trans: "row_le a b \<Longrightarrow> row_le b c \<Longrightarrow> row_le a c"
  by (auto simp: row_le_def)

lemma set_insert_row: "set (insert_row r xs) = insert r (set xs)"
  by (induction xs) auto

lemma set_order_rows: "set (order_rows xs) = set xs"
  by (induction xs) (auto simp: order_rows_def set_insert_row)

lemma sorted_insert_row:
  "sorted_wrt row_le xs \<Longrightarrow> sorted_wrt row_le (insert_row r xs)"
proof (induction xs)
  case Nil
  then show ?case by simp
next
  case (Cons x xs)
  show ?case
  proof (cases "row_le r x")
    case True
    then have "\<forall>y \<in> set xs. row_le r y"
      using Cons.prems by (auto intro: row_le_trans)
    with True Cons.prems show ?thesis by simp
  next
    case False
    then have "row_le x r" using row_le_total by blast
    with False Cons show ?thesis by (auto simp: set_insert_row)
  qed
qed

lemma sorted_order_rows: "sorted_wrt row_le (order_rows xs)"
  by (induction xs) (auto simp: order_rows_def sorted_insert_row)

lemma sorted_wrt_take_drop:
  "sorted_wrt P xs \<Longrightarrow> \<forall>a \<in> set (take n xs). \<forall>b \<in> set (drop n xs). P a b"
  by (metis append_take_drop_id sorted_wrt_append)

text \<open>
  C2. The batch holds at most \<open>n\<close> rows, all of them pending rows of the table, in the
  order priority descending, then \<open>created_at\<close> ascending; a pending row that is left out
  is left out only because the batch is full, and it comes after every selected row in that
  order. With A (priority 5, older), B (priority 5, newer) and C (priority 1) in the table,
  in any order, a batch of size 2 is exactly A, B.
\<close>

theorem batch_selection_order:
  "length (getPendingSteamIds n rows) \<le> n
   \<and> (\<forall>r \<in> set (getPendingSteamIds n rows). r \<in> set rows \<and> status r = Pending)
   \<and> sorted_wrt row_le (getPendingSteamIds n rows)
   \<and> (\<forall>r \<in> set rows. status r = Pending \<longrightarrow> r \<notin> set (getPendingSteamIds n rows) \<longrightarrow>
        length (getPendingSteamIds n rows) = n
        \<and> (\<forall>s \<in> set (getPendingSteamIds n rows). row_le s r))
   \<and> (status a = Pending \<and> status b = Pending \<and> status c = Pending
        \<and> priority a = 5 \<and> priority b = 5 \<and> priority c = 1 \<and> created_at a < created_at b
        \<longrightarrow> (\<forall>tbl \<in> set [[a, b, c], [a, c, b], [b, a, c], [b, c, a], [c, a, b], [c, b, a]].
               getPendingSteamIds 2 tbl = [a, b]))"
proof (intro conjI)
  let ?p = "order_rows (filter (\<lambda>r. status r = Pending) rows)"
  show "length (getPendingSteamIds n rows) \<le> n"
    by (simp add: getPendingSteamIds_def)
  show "\<forall>r \<in> set (getPendingSteamIds n rows). r \<in> set rows \<and> status r = Pending"
  proof
    fix r assume "r \<in> set (getPendingSteamIds n rows)"
    then have "r \<in> set ?p"
      unfolding getPendingSteamIds_def by (rule in_set_takeD)
    then show "r \<in> set rows \<and> status r = Pending"
      by (simp add: set_order_rows)
  qed
  show "sorted_wrt row_le (getPendingSteamIds n rows)"
    unfolding getPendingSteamIds_def
    by (metis append_take_drop_id sorted_order_rows sorted_wrt_append)
  show "\<forall>r \<in> set rows. status r = Pending \<longrightarrow> r \<notin> set (getPendingSteamIds n rows) \<longrightarrow>
        length (getPendingSteamIds n rows) = n
        \<and> (\<forall>s \<in> set (getPendingSteamIds n rows). row_le s r)"
  proof (intro ballI impI)
    fix r assume r: "r \<in> set rows" "status r = Pending" "r \<notin> set (getPendingSteamIds n rows)"
    then have "r \<in> set ?p" by (simp add: set_order_rows)
    then have "r \<in> set (take n ?p) \<union> set (drop n ?p)"
      by (metis append_take_drop_id set_append)
    with r(3) have d: "r \<in> set (drop n ?p)" by (simp add: getPendingSteamIds_def)
    then have "n < length ?p" by (cases "n < length ?p") auto
    then have len: "length (getPendingSteamIds n rows) = n"
      by (simp add: getPendingSteamIds_def)
    have "\<forall>s \<in> set (take n ?p). row_le s r"
      using sorted_wrt_take_drop [OF sorted_order_rows, of n] d by blast
    with len show "length (getPendingSteamIds n rows) = n
        \<and> (\<forall>s \<in> set (getPendingSteamIds n rows). row_le s r)"
      by (simp add: getPendingSteamIds_def)
  qed
  show "status a = Pending \<and> status b = Pending \<and> status c = Pending
        \<and> priority a = 5 \<and> priority b = 5 \<and> priority c = 1 \<and> created_at a < created_at b
        \<longrightarrow> (\<forall>tbl \<in> set [[a, b, c], [a, c, b], [b, a, c], [b, c, a], [c, a, b], [c, b, a]].
               getPendingSteamIds 2 tbl = [a, b])"
    by (simp add: getPendingSteamIds_def order_rows_def row_le_def numeral_2_eq_2)
qed

theorem batch_selection_order_witness:
  "status (ex_row 4 ''A'' Pending 5 20) = Pending
   \<and> priority (ex_row 4 ''A'' Pending 5 20) = 5
   \<and> priority (ex_row 3 ''B'' Pending 5 30) = 5
   \<and> priority (ex_row 1 ''C'' Pending 1 10) = 1
   \<and> created_at (ex_row 4 ''A'' Pending 5 20) < created_at (ex_row 3 ''B'' Pending 5 30)
   \<and> getPendingSteamIds 2
       [ex_row 1 ''C'' Pending 1 10, ex_row 3 ''B'' Pending 5 30, ex_row 4 ''A'' Pending 5 20]
     = [ex_row 4 ''A'' Pending 5 20, ex_row 3 ''B'' Pending 5 30]
   \<and> ex_row 1 ''C'' Pending 1 10
       \<notin> set (getPendingSteamIds 2
           [ex_row 1 ''C'' Pending 1 10, ex_row 3 ''B'' Pending 5 30, ex_row 4 ''A'' Pending 5 20])
   \<and> row_le (ex_row 3 ''B'' Pending 5 30) (ex_row 1 ''C'' Pending 1 10)"
  using batch_selection_order
    [of 2 "[ex_row 1 ''C'' Pending 1 10, ex_row 3 ''B'' Pending 5 30, ex_row 4 ''A'' Pending 5 20]"
        "ex_row 4 ''A'' Pending 5 20" "ex_row 3 ''B'' Pending 5 30" "ex_row 1 ''C'' Pending 1 10"]
  by (simp add: ex_row_def getPendingSteamIds_def order_rows_def row_le_def numeral_2_eq_2)

section \<open>Top players\<close>

lemma order_column_valid: "order_column arg \<in> set validOrderBy"
  by (cases arg) (simp_all add: order_column_def validOrderBy_def)

text \<open>
  C9. Whatever is passed as \<open>orderBy\<close>, the query text is the template with one of the six
  whitelisted column names in each of its three places; a whitelisted name is used as it is,
  and anything else is replaced by \<open>kd_ratio\<close>.
\<close>

theorem getTopPlayers_column_whitelisted:
  "(\<exists>c \<in> set validOrderBy. getTopPlayers_query arg = top_players_query c)
   \<and> (\<forall>s \<in> set validOrderBy. getTopPlayers_query (Str s) = top_players_query s)
   \<and> (arg \<notin> Str ` set validOrderBy \<longrightarrow> getTopPlayers_query arg = top_players_query ''kd_ratio'')"
proof (intro conjI)
  show "\<exists>c \<in> set validOrderBy. getTopPlayers_query arg = top_players_query c"
    using order_column_valid [of arg] by (auto simp: getTopPlayers_query_def)
  show "\<forall>s \<in> set validOrderBy. getTopPlayers_query (Str s) = top_players_query s"
    by (simp add: getTopPlayers_query_def order_column_def)
  show "arg \<notin> Str ` set validOrderBy \<longrightarrow> getTopPlayers_query arg = top_players_query ''kd_ratio''"
    by (cases arg) (auto simp: getTopPlayers_query_def order_column_def)
qed

theorem getTopPlayers_column_whitelisted_witness:
  "Str ''kills; DROP TABLE steam_ids'' \<notin> Str ` set validOrderBy
   \<and> getTopPlayers_query (Str ''kills; DROP TABLE steam_ids'') = top_players_query ''kd_ratio''
   \<and> ''adr'' \<in> set validOrderBy
   \<and> getTopPlayers_query (Str ''adr'') = top_players_query ''adr''"
  using getTopPlayers_column_whitelisted [of "Str ''kills; DROP TABLE steam_ids''"]
  by (auto simp: validOrderBy_def)

section \<open>Stat record upserts\<close>

lemma upsert_existing:
  "i < length rows \<Longrightarrow> ps_steam_id64 (rows ! i) = sid \<Longrightarrow>
   length (upsert sid upd new rows) = length rows \<and> upsert sid upd new rows ! i = upd (rows ! i)"
  by (auto simp: upsert_def list_ex_iff)

text \<open>
  C5. On a row that exists for the identifier, the success upsert adds no row, sets every
  stat column to the value of the new reading (NULL where the reading has none), clears
  \<open>error_message\<close> and sets the success flag; the failure upsert adds no row and changes
  only \<open>last_scraped\<close>, the success flag and \<open>error_message\<close>, so that every stat
  column keeps its value.
\<close>

theorem stat_upserts_asymmetric:
  assumes "i < length (player_stats d)" and "ps_steam_id64 (player_stats d ! i) = sid"
  shows "length (player_stats (savePlayerStats sid playerData d)) = length (player_stats d)
     \<and> (\<forall>f. ps_stats (player_stats (savePlayerStats sid playerData d) ! i) f
             = or_null (map_of (snd playerData) f))
     \<and> error_message (player_stats (savePlayerStats sid playerData d) ! i) = None
     \<and> scrape_success (player_stats (savePlayerStats sid playerData d) ! i)
     \<and> length (player_stats (savePlayerStatsError sid msg d)) = length (player_stats d)
     \<and> player_stats (savePlayerStatsError sid msg d) ! i
         = (player_stats d ! i)\<lparr>last_scraped := clock d, scrape_success := False,
                                  error_message := Some msg\<rparr>
     \<and> (\<forall>f. ps_stats (player_stats (savePlayerStatsError sid msg d) ! i) f
             = ps_stats (player_stats d ! i) f)"
  using upsert_existing [OF assms]
  by (simp add: savePlayerStats_def savePlayerStatsError_def success_row_def)

theorem stat_upserts_asymmetric_witness:
  "0 < length (player_stats ex_db)
   \<and> ps_steam_id64 (player_stats ex_db ! 0) = ''76561198000000001''
   \<and> ps_stats (player_stats (savePlayerStats ''76561198000000001''
         (ex_info, [(Deaths, IntVal 7)]) ex_db) ! 0) Kills = None
   \<and> ps_stats (player_stats (savePlayerStats ''76561198000000001''
         (ex_info, [(Deaths, IntVal 7)]) ex_db) ! 0) Deaths = Some (IntVal 7)
   \<and> ps_stats (player_stats (savePlayerStatsError ''76561198000000001''
         ''HTTP 500'' ex_db) ! 0) Kills = Some (IntVal 4821)
   \<and> error_message (player_stats (savePlayerStatsError ''76561198000000001''
         ''HTTP 500'' ex_db) ! 0) = Some ''HTTP 500''"
  using stat_upserts_asymmetric
    [of 0 ex_db "''76561198000000001''" "(ex_info, [(Deaths, IntVal 7)])" "''HTTP 500''"]
  by (simp add: ex_db_def ex_stat_row_def or_null_def)

section \<open>The passes as sequences of assignments\<close>

lemma replay_Nil [simp]: "replay [] acc = acc"
  by (simp add: replay_def)

lemma replay_Cons [simp]: "replay (u # us) acc = replay us (set_stat (fst u) (snd u) acc)"
  by (simp add: replay_def)

lemma replay_append: "replay (us @ vs) acc = replay vs (replay us acc)"
  by (simp add: replay_def)

lemma map_of_set_stat: "map_of (set_stat f v acc) = (map_of acc)(f \<mapsto> v)"
  by (simp add: set_stat_def update_conv')

lemma set_stat_Nil: "set_stat f v [] = [(f, v)]"
  by (simp add: set_stat_def)

lemma map_of_replay: "map_of (replay us acc) = map_of acc ++ map_of (rev us)"
proof (induction us arbitrary: acc)
  case Nil
  then show ?case by simp
next
  case (Cons u us)
  have "map_of (replay (u # us) acc) = (map_of acc)(fst u \<mapsto> snd u) ++ map_of (rev us)"
    by (simp only: replay_Cons Cons.IH map_of_set_stat)
  also have "\<dots> = map_of acc ++ (map_of (rev us @ [u]))"
    by (cases u) (auto simp: fun_eq_iff map_add_def split: option.splits)
  finally show ?case by simp
qed

lemma map_of_replay_override:
  "map_of (replay us acc) f =
     (case map_of (replay us []) f of Some v \<Rightarrow> Some v | None \<Rightarrow> map_of acc f)"
  by (simp add: map_of_replay map_add_def)

lemma replays_id: "replays (\<lambda>acc. acc)"
  unfolding replays_def by (rule exI [of _ "[]"]) simp

lemma replays_set_stat: "replays (set_stat f v)"
  unfolding replays_def by (rule exI [of _ "[(f, v)]"]) simp

lemma replays_comp: "replays g \<Longrightarrow> replays h \<Longrightarrow> replays (\<lambda>acc. h (g acc))"
  unfolding replays_def
proof -
  assume "\<exists>us. \<forall>acc. g acc = replay us acc" "\<exists>us. \<forall>acc. h acc = replay us acc"
  then obtain us vs where "\<forall>acc. g acc = replay us acc" "\<forall>acc. h acc = replay vs acc" by blast
  then have "\<forall>acc. h (g acc) = replay (us @ vs) acc" by (simp add: replay_append)
  then show "\<exists>us. \<forall>acc. h (g acc) = replay us acc" by blast
qed

lemma replays_foldl:
  assumes "\<And>x. replays (\<lambda>acc. step acc x)"
  shows "replays (\<lambda>acc. foldl step acc xs)"
proof (induction xs rule: rev_induct)
  case Nil
  then show ?case by (simp add: replays_id)
next
  case (snoc x xs)
  from replays_comp [OF snoc assms [of x]] show ?case by simp
qed

lemma replays_override:
  assumes "replays g"
  shows "map_of (g acc) f = (case map_of (g []) f of Some v \<Rightarrow> Some v | None \<Rightarrow> map_of acc f)"
proof -
  from assms obtain us where g: "\<And>a. g a = replay us a"
    unfolding replays_def by blast
  show ?thesis
    unfolding g by (rule map_of_replay_override)
qed

lemma replays_if:
  "(c \<Longrightarrow> replays g) \<Longrightarrow> (\<not> c \<Longrightarrow> replays h) \<Longrightarrow> replays (\<lambda>acc. if c then g acc else h acc)"
  by (cases c) simp_all

lemma replays_case_option:
  "(p = None \<Longrightarrow> replays g) \<Longrightarrow> (\<And>x. p = Some x \<Longrightarrow> replays (h x)) \<Longrightarrow>
   replays (\<lambda>acc. case p of None \<Rightarrow> g acc | Some x \<Rightarrow> h x acc)"
  by (cases p) simp_all

lemmas replays_intros =
  replays_if replays_case_option replays_id replays_set_stat

lemma replays_kd_step: "replays (\<lambda>acc. kd_step acc l)"
  unfolding kd_step_def Let_def
  by (intro replays_intros)

lemma replays_pct_step: "replays (\<lambda>acc. pct_step acc l)"
  unfolding pct_step_def Let_def
  by (intro replays_intros)

lemma replays_int_route_step: "replays (\<lambda>acc. int_route_step acc l)"
  unfolding int_route_step_def Let_def
  by (intro replays_intros)

lemma replays_adr_step: "replays (\<lambda>acc. adr_step acc l)"
  unfolding adr_step_def Let_def
  by (intro replays_intros)

lemma replays_int_step: "replays (\<lambda>acc. int_step acc l)"
  unfolding int_step_def
  by (rule replays_comp [OF replays_int_route_step replays_adr_step])

lemma replays_label_step: "replays (\<lambda>acc. label_step els acc lf)"
  unfolding label_step_def Let_def
  by (intro replays_intros)

lemma replays_kd_pass: "replays (kd_pass els)"
  unfolding kd_pass_def by (rule replays_foldl) (rule replays_kd_step)

lemma replays_pct_pass: "replays (pct_pass els)"
  unfolding pct_pass_def by (rule replays_foldl) (rule replays_pct_step)

lemma replays_int_pass: "replays (int_pass els)"
  unfolding int_pass_def by (rule replays_foldl) (rule replays_int_step)

lemma replays_label_pass: "replays (label_pass els)"
  unfolding label_pass_def by (rule replays_foldl) (rule replays_label_step)

lemma replays_run_passes: "replays (run_passes root)"
  unfolding run_passes_def Let_def
  by (rule replays_comp [OF replays_comp [OF replays_comp
        [OF replays_kd_pass replays_pct_pass] replays_int_pass] replays_label_pass])

section \<open>Integer routing\<close>

lemma route_int_routed: "route_int context num = Some f \<Longrightarrow> f \<in> routed_fields"
  by (auto simp: route_int_def routed_fields_def split: if_splits)

lemma int_route_step_cases:
  "int_route_step acc l = acc
   \<or> (\<exists>f \<in> routed_fields. 0 < parseInt (getText (el l))
        \<and> int_route_step acc l = set_stat f (IntVal (parseInt (getText (el l)))) acc)"
  unfolding int_route_step_def Let_def
  by (auto split: option.splits dest: route_int_routed)

lemma adr_step_cases:
  "adr_step acc l = acc \<or> (\<exists>v. adr_step acc l = set_stat Adr v acc)"
  unfolding adr_step_def Let_def by auto

lemma Adr_not_routed: "Adr \<notin> routed_fields"
  by (simp add: routed_fields_def)

lemma int_step_no_zero:
  assumes "f \<in> routed_fields" and "map_of (int_step acc l) f = Some (IntVal 0)"
  shows "map_of acc f = Some (IntVal 0)"
proof -
  from assms(1) Adr_not_routed have fa: "f \<noteq> Adr" by auto
  have "map_of (int_step acc l) f = map_of (int_route_step acc l) f"
    using adr_step_cases [of "int_route_step acc l" l] fa
    by (auto simp: int_step_def map_of_set_stat)
  with assms(2) have r: "map_of (int_route_step acc l) f = Some (IntVal 0)" by simp
  from int_route_step_cases [of acc l] show ?thesis
  proof
    assume "int_route_step acc l = acc"
    with r show ?thesis by simp
  next
    assume "\<exists>g \<in> routed_fields. 0 < parseInt (getText (el l))
        \<and> int_route_step acc l = set_stat g (IntVal (parseInt (getText (el l)))) acc"
    then obtain g where g: "0 < parseInt (getText (el l))"
      "int_route_step acc l = set_stat g (IntVal (parseInt (getText (el l)))) acc" by blast
    with r show ?thesis by (auto simp: map_of_set_stat split: if_splits)
  qed
qed

lemma int_pass_no_zero:
  "f \<in> routed_fields \<Longrightarrow> map_of (int_pass els acc) f = Some (IntVal 0) \<Longrightarrow>
   map_of acc f = Some (IntVal 0)"
proof (induction els arbitrary: acc rule: rev_induct)
  case Nil
  then show ?case by (simp add: int_pass_def)
next
  case (snoc l els)
  from snoc.prems have "map_of (int_step (int_pass els acc) l) f = Some (IntVal 0)"
    by (simp add: int_pass_def)
  from int_step_no_zero [OF snoc.prems(1) this] snoc.IH snoc.prems(1) show ?case by blast
qed

lemma foldl_untouched:
  assumes "\<And>a l. map_of (step a l) f = map_of a f"
  shows "map_of (foldl step acc xs) f = map_of acc f"
  by (induction xs arbitrary: acc) (simp_all add: assms)

lemma kd_step_untouched: "f \<in> routed_fields \<Longrightarrow> map_of (kd_step acc l) f = map_of acc f"
  by (auto simp: kd_step_def Let_def map_of_set_stat routed_fields_def split: option.splits)

lemma pct_step_untouched: "f \<in> routed_fields \<Longrightarrow> map_of (pct_step acc l) f = map_of acc f"
  by (auto simp: pct_step_def Let_def map_of_set_stat routed_fields_def split: option.splits)

lemma routed_before_labels:
  assumes "f \<in> routed_fields"
  shows "map_of (int_pass els (pct_pass els (kd_pass els []))) f \<noteq> Some (IntVal 0)"
proof
  assume "map_of (int_pass els (pct_pass els (kd_pass els []))) f = Some (IntVal 0)"
  from int_pass_no_zero [OF assms this]
  have "map_of (pct_pass els (kd_pass els [])) f = Some (IntVal 0)" .
  moreover have "map_of (pct_pass els (kd_pass els [])) f = map_of (kd_pass els []) f"
    unfolding pct_pass_def using pct_step_untouched [OF assms] by (rule foldl_untouched)
  moreover have "map_of (kd_pass els []) f = map_of [] f"
    unfolding kd_pass_def using kd_step_untouched [OF assms] by (rule foldl_untouched)
  ultimately show False by simp
qed

lemma zero_text_facts:
  "is_int_text ''0''" "parseInt ''0'' = 0" "\<not> is_adr_text ''0''"
  by (simp_all add: is_int_text_def parseInt_def is_adr_text_def is_digit_def digit_val_def)

lemma int_step_zero_text: "getText (el l) = ''0'' \<Longrightarrow> int_step acc l = acc"
  by (simp add: int_step_def int_route_step_def adr_step_def Let_def zero_text_facts)

text \<open>
  C10. A node whose text is \<open>0\<close> leaves the object as it is in the integer pass; the
  keyword routing assigns only when the parsed number is positive; so the integer pass
  never leaves the value 0 in one of the nine routed fields unless it was there before
  the pass, and when the decimal, percentage and integer passes have run on the fresh object
  none of the nine fields holds 0. The label pass has no such guard: on \<open>zero_doc\<close>, where the label
  \<open>KILLS\<close> stands next to the value \<open>0\<close>, the integer pass assigns nothing and the
  whole script records \<open>kills = 0\<close>.
\<close>

theorem integer_routing_positive:
  "(getText (el l) = ''0'' \<longrightarrow> int_step acc l = acc)
   \<and> (int_route_step acc l \<noteq> acc \<longrightarrow> 0 < parseInt (getText (el l)))
   \<and> (\<forall>f \<in> routed_fields. map_of (int_pass els acc) f = Some (IntVal 0)
         \<longrightarrow> map_of acc f = Some (IntVal 0))
   \<and> (\<forall>f \<in> routed_fields.
         map_of (int_pass els (pct_pass els (kd_pass els []))) f \<noteq> Some (IntVal 0))
   \<and> int_pass (all_elements zero_doc) [] = []
   \<and> extractStats zero_doc = [(Kills, IntVal 0)]"
proof (intro conjI)
  show "getText (el l) = ''0'' \<longrightarrow> int_step acc l = acc"
    by (simp add: int_step_zero_text)
  show "int_route_step acc l \<noteq> acc \<longrightarrow> 0 < parseInt (getText (el l))"
    using int_route_step_cases [of acc l] by blast
  show "\<forall>f \<in> routed_fields. map_of (int_pass els acc) f = Some (IntVal 0)
         \<longrightarrow> map_of acc f = Some (IntVal 0)"
    using int_pass_no_zero by blast
  show "\<forall>f \<in> routed_fields.
         map_of (int_pass els (pct_pass els (kd_pass els []))) f \<noteq> Some (IntVal 0)"
    using routed_before_labels by blast
  show "int_pass (all_elements zero_doc) [] = []"
    by code_simp
  show "extractStats zero_doc = [(Kills, IntVal 0)]"
    by code_simp
qed

theorem integer_routing_positive_witness:
  "getText (el (value_in ''Kills '' ''0'')) = ''0''
   \<and> int_step [] (value_in ''Kills '' ''0'') = []
   \<and> Kills \<in> routed_fields
   \<and> map_of (int_pass [value_in ''Kills '' ''0'', value_in ''Deaths '' ''3190''] []) Kills
       \<noteq> Some (IntVal 0)"
proof -
  have t: "getText (el (value_in ''Kills '' ''0'')) = ''0''"
    by code_simp
  have k: "Kills \<in> routed_fields"
    by (simp add: routed_fields_def)
  note inst = integer_routing_positive
    [of "value_in ''Kills '' ''0''" "[]" "[value_in ''Kills '' ''0'', value_in ''Deaths '' ''3190'']"]
  from inst t have a: "int_step [] (value_in ''Kills '' ''0'') = []"
    by blast
  from inst k have "map_of (int_pass [value_in ''Kills '' ''0'', value_in ''Deaths '' ''3190''] []) Kills
      = Some (IntVal 0) \<longrightarrow> map_of [] Kills = Some (IntVal 0)"
    by blast
  then have b: "map_of (int_pass [value_in ''Kills '' ''0'', value_in ''Deaths '' ''3190''] []) Kills
      \<noteq> Some (IntVal 0)"
    by auto
  from t a k b show ?thesis by blast
qed

section \<open>Precedence between matches\<close>

lemma foldl_unmatched:
  assumes over: "\<And>a l. map_of (step a l) f =
      (case map_of (step [] l) f of Some v \<Rightarrow> Some v | None \<Rightarrow> map_of a f)"
  shows "\<forall>l \<in> set post. map_of (step [] l) f = None \<Longrightarrow>
         map_of (foldl step acc post) f = map_of acc f"
proof (induction post arbitrary: acc)
  case Nil
  then show ?case by simp
next
  case (Cons l post)
  have "map_of (foldl step (step acc l) post) f = map_of (step acc l) f"
    using Cons by simp
  also have "\<dots> = map_of acc f"
    using Cons.prems over [of acc l] by simp
  finally show ?case by simp
qed

lemma foldl_last_match:
  assumes over: "\<And>a l. map_of (step a l) f =
      (case map_of (step [] l) f of Some v \<Rightarrow> Some v | None \<Rightarrow> map_of a f)"
    and hit: "map_of (step [] l) f = Some v"
    and rest: "\<forall>l' \<in> set post. map_of (step [] l') f = None"
  shows "map_of (foldl step acc (pre @ l # post)) f = Some v"
proof -
  have "map_of (foldl step acc (pre @ l # post)) f
      = map_of (step (foldl step acc pre) l) f"
    using foldl_unmatched [of step f post, OF over rest] by simp
  also have "\<dots> = Some v"
    using over [of "foldl step acc pre" l] hit by simp
  finally show ?thesis .
qed

lemmas kd_step_override = replays_override [OF replays_kd_step]
lemmas pct_step_override = replays_override [OF replays_pct_step]
lemmas int_step_override = replays_override [OF replays_int_step]
lemmas label_pass_override = replays_override [OF replays_label_pass]

lemma c1_doc_int_pass: "int_pass (all_elements c1_doc) [] = [(Kills, IntVal 20)]"
  by code_simp

lemma c1_doc_first_match: "int_step [] (all_elements c1_doc ! 2) = [(Kills, IntVal 10)]"
  by code_simp

lemma c1_doc_label_pass:
  "label_pass (all_elements c1_doc) [(Kills, IntVal 20)] = [(Kills, IntVal 0)]"
  by code_simp

text \<open>
  C1 as stated does not hold. In \<open>c1_doc\<close> two nodes match \<open>kills\<close> in the integer pass, with 10 and then 20, and
  the label \<open>KILLS\<close> stands next to the value 0. The first match gives 10, yet the
  integer pass ends with 20, and the label pass then replaces the value that was already set.
\<close>

theorem first_match_counterexample:
  "map_of (int_step [] (all_elements c1_doc ! 2)) Kills = Some (IntVal 10)
   \<and> map_of (int_pass (all_elements c1_doc) []) Kills = Some (IntVal 20)
   \<and> map_of (label_pass (all_elements c1_doc) (int_pass (all_elements c1_doc) [])) Kills
       = Some (IntVal 0)"
  by (simp add: c1_doc_int_pass c1_doc_first_match c1_doc_label_pass)

text \<open>
  C1, as amended. Every match assigns its field, whatever the field holds. Within the
  decimal, percentage and integer passes the value of the last matching node in document
  order is the value after the pass: if node \<open>l\<close> gives field \<open>f\<close> the value \<open>v\<close> and no
  node after it matches \<open>f\<close>, the pass ends with \<open>f = v\<close>, whatever the nodes before
  \<open>l\<close> and the earlier passes gave. The label pass sets the field of every label it finds a
  value for, also when an earlier pass has set that field.
\<close>

theorem last_match_wins:
  "(tag_of (el l) = ''text'' \<and> map_of (kd_step [] l) f = Some v
      \<and> (\<forall>l' \<in> set post. tag_of (el l') = ''text'' \<longrightarrow> map_of (kd_step [] l') f = None)
      \<longrightarrow> map_of (kd_pass (pre @ l # post) acc) f = Some v)
   \<and> (map_of (pct_step [] l) f = Some v
      \<and> (\<forall>l' \<in> set post. map_of (pct_step [] l') f = None)
      \<longrightarrow> map_of (pct_pass (pre @ l # post) acc) f = Some v)
   \<and> (map_of (int_step [] l) f = Some v
      \<and> (\<forall>l' \<in> set post. map_of (int_step [] l') f = None)
      \<longrightarrow> map_of (int_pass (pre @ l # post) acc) f = Some v)
   \<and> (map_of (label_pass els []) f = Some v \<longrightarrow> map_of (label_pass els acc) f = Some v)"
proof (intro conjI impI)
  assume a: "tag_of (el l) = ''text'' \<and> map_of (kd_step [] l) f = Some v
      \<and> (\<forall>l' \<in> set post. tag_of (el l') = ''text'' \<longrightarrow> map_of (kd_step [] l') f = None)"
  let ?P = "\<lambda>l. tag_of (el l) = ''text''"
  from a have "\<forall>l' \<in> set (filter ?P post). map_of (kd_step [] l') f = None" by simp
  from foldl_last_match [of kd_step f l v "filter ?P post" acc "filter ?P pre",
      OF kd_step_override _ this] a
  show "map_of (kd_pass (pre @ l # post) acc) f = Some v"
    by (simp add: kd_pass_def)
next
  assume a: "map_of (pct_step [] l) f = Some v
      \<and> (\<forall>l' \<in> set post. map_of (pct_step [] l') f = None)"
  from foldl_last_match [of pct_step f l v post acc pre, OF pct_step_override] a
  show "map_of (pct_pass (pre @ l # post) acc) f = Some v"
    by (simp add: pct_pass_def)
next
  assume a: "map_of (int_step [] l) f = Some v
      \<and> (\<forall>l' \<in> set post. map_of (int_step [] l') f = None)"
  from foldl_last_match [of int_step f l v post acc pre, OF int_step_override] a
  show "map_of (int_pass (pre @ l # post) acc) f = Some v"
    by (simp add: int_pass_def)
next
  assume "map_of (label_pass els []) f = Some v"
  then show "map_of (label_pass els acc) f = Some v"
    by (simp add: label_pass_override [of els acc f])
qed

lemma ex_kd_steps:
  "tag_of (el (kd_in ''K/D'' ''1.34'')) = ''text''"
  "kd_step [] (kd_in ''K/D'' ''1.34'') = [(Kd_ratio, DecVal 134 2)]"
  "kd_step [] (kd_in ''Rating'' ''1.07'') = [(Hltv_rating, DecVal 107 2)]"
  by code_simp+

lemma ex_pct_steps:
  "pct_step [] (value_in ''Headshot % '' ''42%'') = [(Headshot_percentage, TextVal ''42%'')]"
  "pct_step [] (value_in ''Win rate '' ''51%'') = [(Win_rate, TextVal ''51%'')]"
  by code_simp+

lemma ex_int_steps:
  "int_step [] (value_in ''Kills '' ''20'') = [(Kills, IntVal 20)]"
  "int_step [] (value_in ''Deaths '' ''3190'') = [(Deaths, IntVal 3190)]"
  by code_simp+

lemma c1_doc_label_fresh: "label_pass (all_elements c1_doc) [] = [(Kills, IntVal 0)]"
  by code_simp

theorem last_match_wins_witness:
  "map_of (kd_pass [kd_in ''K/D'' ''0.98'', kd_in ''K/D'' ''1.34'', kd_in ''Rating'' ''1.07''] [])
      Kd_ratio = Some (DecVal 134 2)
   \<and> map_of (pct_pass [value_in ''Headshot % '' ''40%'', value_in ''Headshot % '' ''42%'',
                       value_in ''Win rate '' ''51%''] []) Headshot_percentage
      = Some (TextVal ''42%'')
   \<and> map_of (int_pass [value_in ''Kills '' ''10'', value_in ''Kills '' ''20'',
                       value_in ''Deaths '' ''3190''] []) Kills = Some (IntVal 20)
   \<and> map_of (label_pass (all_elements c1_doc) [(Kills, IntVal 20)]) Kills = Some (IntVal 0)"
proof -
  have "map_of (kd_pass ([kd_in ''K/D'' ''0.98''] @ kd_in ''K/D'' ''1.34'' # [kd_in ''Rating'' ''1.07'']) [])
      Kd_ratio = Some (DecVal 134 2)"
    using last_match_wins [of "kd_in ''K/D'' ''1.34''" Kd_ratio "DecVal 134 2"
        "[kd_in ''Rating'' ''1.07'']" "[kd_in ''K/D'' ''0.98'']" "[]"]
    by (simp add: ex_kd_steps)
  moreover have "map_of (pct_pass ([value_in ''Headshot % '' ''40%''] @ value_in ''Headshot % '' ''42%''
        # [value_in ''Win rate '' ''51%'']) []) Headshot_percentage = Some (TextVal ''42%'')"
    using last_match_wins [of "value_in ''Headshot % '' ''42%''" Headshot_percentage "TextVal ''42%''"
        "[value_in ''Win rate '' ''51%'']" "[value_in ''Headshot % '' ''40%'']" "[]"]
    by (simp add: ex_pct_steps)
  moreover have "map_of (int_pass ([value_in ''Kills '' ''10''] @ value_in ''Kills '' ''20''
        # [value_in ''Deaths '' ''3190'']) []) Kills = Some (IntVal 20)"
    using last_match_wins [of "value_in ''Kills '' ''20''" Kills "IntVal 20"
        "[value_in ''Deaths '' ''3190'']" "[value_in ''Kills '' ''10'']" "[]"]
    by (simp add: ex_int_steps)
  moreover have "map_of (label_pass (all_elements c1_doc) [(Kills, IntVal 20)]) Kills = Some (IntVal 0)"
    using last_match_wins [where f = Kills and v = "IntVal 0" and els = "all_elements c1_doc"
        and acc = "[(Kills, IntVal 20)]"]
    by (simp add: c1_doc_label_fresh)
  ultimately show ?thesis by simp
qed

section \<open>The disambiguation example\<close>

lemma int_step_texts:
  "getText (el l) = getText (el l') \<Longrightarrow>
   getText_opt (parentElement l) = getText_opt (parentElement l') \<Longrightarrow>
   int_step acc l = int_step acc l'"
  by (simp add: int_step_def int_route_step_def adr_step_def int_context_def)

lemma c6_texts:
  "getText (el (value_in ''Kills: '' ''4821'')) = ''4821''"
  "getText_opt (parentElement (value_in ''Kills: '' ''4821'')) = ''Kills: 4821''"
  "getText (el (value_in ''Deaths '' ''3190'')) = ''3190''"
  "getText_opt (parentElement (value_in ''Deaths '' ''3190'')) = ''Deaths 3190''"
  "getText (el (value_in ''Rounds Played '' ''18452'')) = ''18452''"
  "getText_opt (parentElement (value_in ''Rounds Played '' ''18452'')) = ''Rounds Played 18452''"
  by code_simp+

lemma c6_steps:
  "int_step acc (value_in ''Kills: '' ''4821'') = set_stat Kills (IntVal 4821) acc"
  "int_step acc (value_in ''Deaths '' ''3190'') = set_stat Deaths (IntVal 3190) acc"
  "int_step acc (value_in ''Rounds Played '' ''18452'') = set_stat Matches_played (IntVal 18452) acc"
  by code_simp+

lemma c6_doc_int_pass:
  "int_pass (all_elements c6_doc) []
     = [(Kills, IntVal 4821), (Deaths, IntVal 3190), (Matches_played, IntVal 18452)]"
  by code_simp

text \<open>
  C6 as stated does not hold. In \<open>c6_doc\<close> the three values stand in elements whose texts are \<open>Kills: 4821\<close>,
  \<open>Deaths 3190\<close> and \<open>Rounds Played 18452\<close>. The integer pass does not assign
  \<open>rounds_played\<close>: the context of 18452 contains \<open>played\<close>, and that keyword is tested
  before \<open>round\<close>.
\<close>

theorem rounds_played_counterexample:
  "\<not> (map_of (int_pass (all_elements c6_doc) []) Kills = Some (IntVal 4821)
      \<and> map_of (int_pass (all_elements c6_doc) []) Deaths = Some (IntVal 3190)
      \<and> map_of (int_pass (all_elements c6_doc) []) Rounds_played = Some (IntVal 18452)
      \<and> map_of (int_pass (all_elements c6_doc) []) Total_damage = None)"
  by (simp add: c6_doc_int_pass)

text \<open>
  C6, as amended. For three nodes with the texts 4821, 3190 and 18452 whose parents have
  the texts \<open>Kills: 4821\<close>, \<open>Deaths 3190\<close> and \<open>Rounds Played 18452\<close>, the integer pass
  assigns \<open>kills = 4821\<close>, \<open>deaths = 3190\<close> and \<open>matches_played = 18452\<close>, and it
  leaves \<open>rounds_played\<close> and \<open>total_damage\<close> as they were. Any context that
  contains \<open>played\<close>, and none of the keywords tested before it, is routed to
  \<open>matches_played\<close>, whatever the number.
\<close>

theorem integer_routing_example:
  assumes "getText (el a) = ''4821''"
    and "getText_opt (parentElement a) = ''Kills: 4821''"
    and "getText (el b) = ''3190''"
    and "getText_opt (parentElement b) = ''Deaths 3190''"
    and "getText (el c) = ''18452''"
    and "getText_opt (parentElement c) = ''Rounds Played 18452''"
  shows "int_pass [a, b, c] acc
           = set_stat Matches_played (IntVal 18452)
               (set_stat Deaths (IntVal 3190) (set_stat Kills (IntVal 4821) acc))
     \<and> map_of (int_pass [a, b, c] acc) Kills = Some (IntVal 4821)
     \<and> map_of (int_pass [a, b, c] acc) Deaths = Some (IntVal 3190)
     \<and> map_of (int_pass [a, b, c] acc) Matches_played = Some (IntVal 18452)
     \<and> map_of (int_pass [a, b, c] acc) Rounds_played = map_of acc Rounds_played
     \<and> map_of (int_pass [a, b, c] acc) Total_damage = map_of acc Total_damage
     \<and> (\<forall>context num.
           str_includes context ''played'' \<and> \<not> str_includes context ''kill''
           \<and> \<not> str_includes context ''death'' \<and> \<not> str_includes context ''assist''
           \<and> \<not> str_includes context ''headshot''
           \<longrightarrow> route_int context num = Some Matches_played)"
proof -
  have a: "\<And>s. int_step s a = set_stat Kills (IntVal 4821) s"
    using int_step_texts [of a "value_in ''Kills: '' ''4821''"] assms(1,2)
    by (simp add: c6_texts c6_steps)
  have b: "\<And>s. int_step s b = set_stat Deaths (IntVal 3190) s"
    using int_step_texts [of b "value_in ''Deaths '' ''3190''"] assms(3,4)
    by (simp add: c6_texts c6_steps)
  have c: "\<And>s. int_step s c = set_stat Matches_played (IntVal 18452) s"
    using int_step_texts [of c "value_in ''Rounds Played '' ''18452''"] assms(5,6)
    by (simp add: c6_texts c6_steps)
  have d: "\<forall>context num.
           str_includes context ''played'' \<and> \<not> str_includes context ''kill''
           \<and> \<not> str_includes context ''death'' \<and> \<not> str_includes context ''assist''
           \<and> \<not> str_includes context ''headshot''
           \<longrightarrow> route_int context num = Some Matches_played"
    by (simp add: route_int_def)
  from d show ?thesis
    by (simp add: int_pass_def a b c map_of_set_stat)
qed

theorem integer_routing_example_witness:
  "getText (el (value_in ''Kills: '' ''4821'')) = ''4821''
   \<and> getText_opt (parentElement (value_in ''Kills: '' ''4821'')) = ''Kills: 4821''
   \<and> getText (el (value_in ''Deaths '' ''3190'')) = ''3190''
   \<and> getText_opt (parentElement (value_in ''Deaths '' ''3190'')) = ''Deaths 3190''
   \<and> getText (el (value_in ''Rounds Played '' ''18452'')) = ''18452''
   \<and> getText_opt (parentElement (value_in ''Rounds Played '' ''18452'')) = ''Rounds Played 18452''
   \<and> int_pass [value_in ''Kills: '' ''4821'', value_in ''Deaths '' ''3190'',
                value_in ''Rounds Played '' ''18452''] []
       = [(Kills, IntVal 4821), (Deaths, IntVal 3190), (Matches_played, IntVal 18452)]
   \<and> map_of (int_pass [value_in ''Kills: '' ''4821'', value_in ''Deaths '' ''3190'',
                value_in ''Rounds Played '' ''18452''] []) Rounds_played = None"
  using integer_routing_example [OF c6_texts, of "[]"]
  by (simp add: c6_texts set_stat_def)

section \<open>What the database calls leave alone\<close>

lemma steam_ids_frame [simp]:
  "steam_ids (savePlayerStats sid pd d) = steam_ids d"
  "steam_ids (savePlayerStatsError sid err d) = steam_ids d"
  "steam_ids (logScrapeSuccess logId sid t n d) = steam_ids d"
  "steam_ids (logScrapeFailure logId sid t err d) = steam_ids d"
  "steam_ids (snd (logScrapeStart sid d)) = steam_ids d"
  by (simp_all add: savePlayerStats_def savePlayerStatsError_def logScrapeSuccess_def
        logScrapeFailure_def logScrapeStart_def Let_def)

lemma player_stats_frame [simp]:
  "player_stats (updateSteamIdStatus sid st d) = player_stats d"
  "player_stats (logScrapeSuccess logId sid t n d) = player_stats d"
  "player_stats (logScrapeFailure logId sid t err d) = player_stats d"
  "player_stats (snd (logScrapeStart sid d)) = player_stats d"
  by (simp_all add: updateSteamIdStatus_def logScrapeSuccess_def
        logScrapeFailure_def logScrapeStart_def Let_def)

lemma rows_of_frame [simp]:
  "rows_of (savePlayerStats sid pd d) = rows_of d"
  "rows_of (savePlayerStatsError sid err d) = rows_of d"
  "rows_of (logScrapeSuccess logId sid t n d) = rows_of d"
  "rows_of (logScrapeFailure logId sid t err d) = rows_of d"
  "rows_of (snd (logScrapeStart sid d)) = rows_of d"
  by (rule ext, simp add: rows_of_def)+

lemma filter_other_rows:
  "sid' \<noteq> sid \<Longrightarrow>
   filter (\<lambda>r. steam_id64 r = sid')
     (map (\<lambda>r. if steam_id64 r = sid then r\<lparr>status := st, updated_at := t\<rparr> else r) rows)
   = filter (\<lambda>r. steam_id64 r = sid') rows"
  by (induction rows) auto

lemma rows_of_update_other:
  "sid' \<noteq> sid \<Longrightarrow> rows_of (updateSteamIdStatus sid st d) sid' = rows_of d sid'"
  by (simp add: rows_of_def updateSteamIdStatus_def filter_other_rows)

lemma upd_row_status:
  "steam_id64 (if steam_id64 x = sid then x\<lparr>status := st, updated_at := t\<rparr> else x) = sid \<Longrightarrow>
   status (if steam_id64 x = sid then x\<lparr>status := st, updated_at := t\<rparr> else x) = st"
  by (cases "steam_id64 x = sid") simp_all

lemma status_in_updated:
  "r \<in> set (map (\<lambda>r. if steam_id64 r = sid then r\<lparr>status := st, updated_at := t\<rparr> else r) rows)
   \<Longrightarrow> steam_id64 r = sid \<Longrightarrow> status r = st"
proof (induction rows)
  case Nil
  then show ?case by simp
next
  case (Cons x rows)
  from Cons.prems(1) have "r = (if steam_id64 x = sid then x\<lparr>status := st, updated_at := t\<rparr> else x)
      \<or> r \<in> set (map (\<lambda>r. if steam_id64 r = sid then r\<lparr>status := st, updated_at := t\<rparr> else r) rows)"
    by (simp only: list.map set_simps insert_iff)
  then show ?case
  proof
    assume "r = (if steam_id64 x = sid then x\<lparr>status := st, updated_at := t\<rparr> else x)"
    with Cons.prems(2) upd_row_status [where x = x and sid = sid and st = st and t = t]
    show ?thesis by simp
  next
    assume "r \<in> set (map (\<lambda>r. if steam_id64 r = sid then r\<lparr>status := st, updated_at := t\<rparr> else r) rows)"
    with Cons show ?thesis by blast
  qed
qed

lemma rows_of_update_same:
  assumes "r \<in> set (rows_of (updateSteamIdStatus sid st d) sid)"
  shows "status r = st"
proof -
  from assms have k: "steam_id64 r = sid"
    by (simp add: rows_of_def)
  from assms have "r \<in> set (steam_ids (updateSteamIdStatus sid st d))"
    by (simp add: rows_of_def)
  then have "r \<in> set (map (\<lambda>r. if steam_id64 r = sid then r\<lparr>status := st, updated_at := clock d\<rparr> else r) (steam_ids d))"
    by (simp add: updateSteamIdStatus_def)
  from status_in_updated [OF this k] show ?thesis .
qed

lemma rows_of_member: "r \<in> set (steam_ids d) \<longleftrightarrow> r \<in> set (rows_of d (steam_id64 r))"
  by (simp add: rows_of_def)

lemma error_upsert_key:
  assumes "row \<in> set (player_stats (savePlayerStatsError sid err d))" and "ps_steam_id64 row = sid"
  shows "\<not> scrape_success row \<and> error_message row = Some err"
proof (cases "list_ex (\<lambda>r. ps_steam_id64 r = sid) (player_stats d)")
  case True
  with assms(1) obtain x where "x \<in> set (player_stats d)"
    and "row = (if ps_steam_id64 x = sid
                then x\<lparr>last_scraped := clock d, scrape_success := False, error_message := Some err\<rparr>
                else x)"
    by (auto simp: savePlayerStatsError_def upsert_def)
  with assms(2) show ?thesis by (cases "ps_steam_id64 x = sid") simp_all
next
  case False
  with assms(1) have "row \<in> set (player_stats d) \<or> row = error_row sid err (clock d)"
    by (auto simp: savePlayerStatsError_def upsert_def)
  then show ?thesis
  proof
    assume "row \<in> set (player_stats d)"
    with False assms(2) show ?thesis by (simp add: list_ex_iff)
  next
    assume "row = error_row sid err (clock d)"
    then have "scrape_success row = False" "error_message row = Some err"
      by (simp_all only: error_row_def stat_row.simps)
    then show ?thesis by simp
  qed
qed

lemma error_upsert_exists:
  "\<exists>row \<in> set (player_stats (savePlayerStatsError sid err d)). ps_steam_id64 row = sid"
proof (cases "list_ex (\<lambda>r. ps_steam_id64 r = sid) (player_stats d)")
  case True
  then obtain x where x: "x \<in> set (player_stats d)" "ps_steam_id64 x = sid"
    by (auto simp: list_ex_iff)
  let ?y = "x\<lparr>last_scraped := clock d, scrape_success := False, error_message := Some err\<rparr>"
  have "?y \<in> set (player_stats (savePlayerStatsError sid err d))"
    using True x by (force simp: savePlayerStatsError_def upsert_def)
  moreover have "ps_steam_id64 ?y = sid" using x by simp
  ultimately show ?thesis by blast
next
  case False
  then have "error_row sid err (clock d) \<in> set (player_stats (savePlayerStatsError sid err d))"
    by (simp add: savePlayerStatsError_def upsert_def)
  moreover have "ps_steam_id64 (error_row sid err (clock d)) = sid"
    by (simp add: error_row_def)
  ultimately show ?thesis by blast
qed

lemma error_upsert_other:
  assumes "row \<in> set (player_stats (savePlayerStatsError sid err d))" and "ps_steam_id64 row \<noteq> sid"
  shows "row \<in> set (player_stats d)"
proof (cases "list_ex (\<lambda>r. ps_steam_id64 r = sid) (player_stats d)")
  case True
  with assms(1) obtain x where "x \<in> set (player_stats d)"
    and "row = (if ps_steam_id64 x = sid
                then x\<lparr>last_scraped := clock d, scrape_success := False, error_message := Some err\<rparr>
                else x)"
    by (auto simp: savePlayerStatsError_def upsert_def)
  with assms(2) show ?thesis by (cases "ps_steam_id64 x = sid") simp_all
next
  case False
  with assms(1) have "row \<in> set (player_stats d) \<or> row = error_row sid err (clock d)"
    by (auto simp: savePlayerStatsError_def upsert_def)
  with assms(2) show ?thesis
    by (auto simp: error_row_def)
qed

lemma written_as_failure_refl: "written_as_failure sid d d"
  by (simp add: written_as_failure_def)

lemma written_as_failure_trans:
  "written_as_failure sid d d' \<Longrightarrow> written_as_failure sid d' d'' \<Longrightarrow> written_as_failure sid d d''"
  unfolding written_as_failure_def by blast

lemma written_as_failure_same:
  "player_stats d' = player_stats d \<Longrightarrow> written_as_failure sid d d'"
  by (simp add: written_as_failure_def)

lemma written_as_failure_error: "written_as_failure sid d (savePlayerStatsError sid err d)"
  unfolding written_as_failure_def
  using error_upsert_key error_upsert_other by blast

section \<open>The branches of the per-item procedure\<close>

lemma failure_branch_summary:
  assumes "failure_branch e sid logId err t w = (res, w')"
  shows fb_mgr: "mgr w' = (case res of Inl m \<Rightarrow> mgr w
                           | Inr r \<Rightarrow> (mgr w)\<lparr>failureCount := failureCount (mgr w) + 1\<rparr>)"
    and fb_other: "sid' \<noteq> sid \<Longrightarrow> rows_of (store w') sid' = rows_of (store w) sid'"
    and fb_result: "res = Inr r \<Longrightarrow> r = ItemFailed sid err"
    and fb_status: "res = Inr r \<Longrightarrow> row \<in> set (rows_of (store w') sid) \<Longrightarrow> status row = Failed"
    and fb_written: "written_as_failure sid (store w) (store w')"
    and fb_row: "res = Inr r \<Longrightarrow>
           (\<exists>x \<in> set (player_stats (store w')). ps_steam_id64 x = sid)
           \<and> (\<forall>x \<in> set (player_stats (store w')). ps_steam_id64 x = sid \<longrightarrow>
                 \<not> scrape_success x \<and> error_message x = Some err)"
    and fb_total: "db_fault e sid SSaveError = None \<Longrightarrow> db_fault e sid SSetFailed = None \<Longrightarrow>
           db_fault e sid SLogFailure = None \<Longrightarrow> \<exists>r. res = Inr r"
proof -
  note defs = failure_branch_def db_call_def count_failure_def
  show "mgr w' = (case res of Inl m \<Rightarrow> mgr w
                           | Inr r \<Rightarrow> (mgr w)\<lparr>failureCount := failureCount (mgr w) + 1\<rparr>)"
    using assms by (auto simp: defs split: option.splits)
  show "sid' \<noteq> sid \<Longrightarrow> rows_of (store w') sid' = rows_of (store w) sid'"
    using assms by (auto simp: defs rows_of_update_other split: option.splits)
  show "res = Inr r \<Longrightarrow> r = ItemFailed sid err"
    using assms by (auto simp: defs split: option.splits)
  show "res = Inr r \<Longrightarrow> row \<in> set (rows_of (store w') sid) \<Longrightarrow> status row = Failed"
    using assms by (auto simp: defs split: option.splits dest: rows_of_update_same)
  show "written_as_failure sid (store w) (store w')"
    using assms
    by (auto simp: defs written_as_failure_refl written_as_failure_error
          intro: written_as_failure_trans [OF written_as_failure_error written_as_failure_same]
          split: option.splits)
  show "res = Inr r \<Longrightarrow>
           (\<exists>x \<in> set (player_stats (store w')). ps_steam_id64 x = sid)
           \<and> (\<forall>x \<in> set (player_stats (store w')). ps_steam_id64 x = sid \<longrightarrow>
                 \<not> scrape_success x \<and> error_message x = Some err)"
    using assms error_upsert_exists [of sid err "store w"] error_upsert_key [of _ sid err "store w"]
    by (auto simp: defs split: option.splits)
  show "db_fault e sid SSaveError = None \<Longrightarrow> db_fault e sid SSetFailed = None \<Longrightarrow>
           db_fault e sid SLogFailure = None \<Longrightarrow> \<exists>r. res = Inr r"
    using assms by (auto simp: defs split: option.splits)
qed

lemma catch_block_summary:
  assumes "catch_block e sid logId err w = (res, w')"
  shows cb_mgr: "mgr w' = (case res of Inl m \<Rightarrow> mgr w
                           | Inr r \<Rightarrow> (mgr w)\<lparr>failureCount := failureCount (mgr w) + 1\<rparr>)"
    and cb_other: "sid' \<noteq> sid \<Longrightarrow> rows_of (store w') sid' = rows_of (store w) sid'"
    and cb_result: "res = Inr r \<Longrightarrow> r = ItemFailed sid err"
    and cb_status: "res = Inr r \<Longrightarrow> row \<in> set (rows_of (store w') sid) \<Longrightarrow> status row = Failed"
    and cb_written: "written_as_failure sid (store w) (store w')"
    and cb_row: "res = Inr r \<Longrightarrow>
           (\<exists>x \<in> set (player_stats (store w')). ps_steam_id64 x = sid)
           \<and> (\<forall>x \<in> set (player_stats (store w')). ps_steam_id64 x = sid \<longrightarrow>
                 \<not> scrape_success x \<and> error_message x = Some err)"
    and cb_total: "db_fault e sid HSaveError = None \<Longrightarrow> db_fault e sid HSetFailed = None \<Longrightarrow>
           db_fault e sid HLogFailure = None \<Longrightarrow> \<exists>r. res = Inr r"
proof -
  note defs = catch_block_def db_call_def count_failure_def
  show "mgr w' = (case res of Inl m \<Rightarrow> mgr w
                           | Inr r \<Rightarrow> (mgr w)\<lparr>failureCount := failureCount (mgr w) + 1\<rparr>)"
    using assms by (auto simp: defs split: option.splits)
  show "sid' \<noteq> sid \<Longrightarrow> rows_of (store w') sid' = rows_of (store w) sid'"
    using assms by (auto simp: defs rows_of_update_other split: option.splits)
  show "res = Inr r \<Longrightarrow> r = ItemFailed sid err"
    using assms by (auto simp: defs split: option.splits)
  show "res = Inr r \<Longrightarrow> row \<in> set (rows_of (store w') sid) \<Longrightarrow> status row = Failed"
    using assms by (auto simp: defs split: option.splits dest: rows_of_update_same)
  show "written_as_failure sid (store w) (store w')"
    using assms
    by (auto simp: defs written_as_failure_refl written_as_failure_error
          intro: written_as_failure_trans [OF written_as_failure_error written_as_failure_same]
          split: option.splits)
  show "res = Inr r \<Longrightarrow>
           (\<exists>x \<in> set (player_stats (store w')). ps_steam_id64 x = sid)
           \<and> (\<forall>x \<in> set (player_stats (store w')). ps_steam_id64 x = sid \<longrightarrow>
                 \<not> scrape_success x \<and> error_message x = Some err)"
    using assms error_upsert_exists [of sid err "store w"] error_upsert_key [of _ sid err "store w"]
    by (auto simp: defs split: option.splits)
  show "db_fault e sid HSaveError = None \<Longrightarrow> db_fault e sid HSetFailed = None \<Longrightarrow>
           db_fault e sid HLogFailure = None \<Longrightarrow> \<exists>r. res = Inr r"
    using assms by (auto simp: defs split: option.splits)
qed

lemma success_branch_summary:
  assumes "success_branch e sid logId pd t n w = (res, w')"
  shows sb_mgr: "mgr w' = (case res of Inl m \<Rightarrow> mgr w
                           | Inr r \<Rightarrow> (mgr w)\<lparr>successCount := successCount (mgr w) + 1\<rparr>)"
    and sb_other: "sid' \<noteq> sid \<Longrightarrow> rows_of (store w') sid' = rows_of (store w) sid'"
    and sb_result: "res = Inr r \<Longrightarrow> r = ItemOk sid n"
    and sb_status: "res = Inr r \<Longrightarrow> row \<in> set (rows_of (store w') sid) \<Longrightarrow> status row = Completed"
    and sb_ok: "res = Inr r \<Longrightarrow> db_fault e sid SSaveStats = None
           \<and> db_fault e sid SSetCompleted = None \<and> db_fault e sid SLogSuccess = None"
proof -
  note defs = success_branch_def db_call_def count_success_def
  show "mgr w' = (case res of Inl m \<Rightarrow> mgr w
                           | Inr r \<Rightarrow> (mgr w)\<lparr>successCount := successCount (mgr w) + 1\<rparr>)"
    using assms by (auto simp: defs split: option.splits)
  show "sid' \<noteq> sid \<Longrightarrow> rows_of (store w') sid' = rows_of (store w) sid'"
    using assms by (auto simp: defs rows_of_update_other split: option.splits)
  show "res = Inr r \<Longrightarrow> r = ItemOk sid n"
    using assms by (auto simp: defs split: option.splits)
  show "res = Inr r \<Longrightarrow> row \<in> set (rows_of (store w') sid) \<Longrightarrow> status row = Completed"
    using assms by (auto simp: defs split: option.splits dest: rows_of_update_same)
  show "res = Inr r \<Longrightarrow> db_fault e sid SSaveStats = None
           \<and> db_fault e sid SSetCompleted = None \<and> db_fault e sid SLogSuccess = None"
    using assms by (auto simp: defs split: option.splits)
qed

lemma try_block_summary:
  assumes "try_block e sid logId w = (res, w')"
  shows tb_mgr: "mgr w' = counted (mgr w) res"
    and tb_other: "sid' \<noteq> sid \<Longrightarrow> rows_of (store w') sid' = rows_of (store w) sid'"
    and tb_status: "res = Inr r \<Longrightarrow> row \<in> set (rows_of (store w') sid) \<Longrightarrow>
           status row = (if item_success r then Completed else Failed)"
    and tb_written: "\<forall>pd t n. scrapePlayerStats (render_of e sid) \<noteq> Inr (ScrapeOk pd t n) \<Longrightarrow>
           written_as_failure sid (store w) (store w')"
    and tb_row: "res = Inr (ItemFailed i err) \<Longrightarrow>
           (\<exists>x \<in> set (player_stats (store w')). ps_steam_id64 x = sid)
           \<and> (\<forall>x \<in> set (player_stats (store w')). ps_steam_id64 x = sid \<longrightarrow>
                 \<not> scrape_success x \<and> error_message x = Some err)"
    and tb_result: "res = Inr r \<Longrightarrow> (\<exists>n. r = ItemOk sid n) \<or> (\<exists>err. r = ItemFailed sid err)"
    and tb_ok: "res = Inr (ItemOk i n) \<Longrightarrow>
           (\<exists>pd t. scrapePlayerStats (render_of e sid) = Inr (ScrapeOk pd t n))
           \<and> db_fault e sid SSetProcessing = None \<and> db_fault e sid SSaveStats = None
           \<and> db_fault e sid SSetCompleted = None \<and> db_fault e sid SLogSuccess = None"
proof -
  show "mgr w' = counted (mgr w) res"
  proof (cases "db_fault e sid SSetProcessing")
    case (Some m)
    with assms show ?thesis by (auto simp: try_block_def db_call_def counted_def)
  next
    case None
    let ?w1 = "w\<lparr>store := updateSteamIdStatus sid Processing (store w)\<rparr>"
    show ?thesis
    proof (cases "scrapePlayerStats (render_of e sid)")
      case (Inl m)
      with None assms show ?thesis by (auto simp: try_block_def db_call_def counted_def)
    next
      case (Inr sr)
      show ?thesis
      proof (cases sr)
        case (ScrapeOk pd t n)
        with None Inr assms have b: "success_branch e sid logId pd t n ?w1 = (res, w')"
          by (simp add: try_block_def db_call_def)
        from sb_mgr [OF b] sb_result [OF b] show ?thesis
          by (cases res) (simp_all add: counted_def)
      next
        case (ScrapeFailed err t)
        with None Inr assms have b: "failure_branch e sid logId err t ?w1 = (res, w')"
          by (simp add: try_block_def db_call_def)
        from fb_mgr [OF b] fb_result [OF b] show ?thesis
          by (cases res) (simp_all add: counted_def)
      qed
    qed
  qed
  show "sid' \<noteq> sid \<Longrightarrow> rows_of (store w') sid' = rows_of (store w) sid'"
  proof -
    assume ne: "sid' \<noteq> sid"
    show ?thesis
    proof (cases "db_fault e sid SSetProcessing")
      case (Some m)
      with assms show ?thesis by (auto simp: try_block_def db_call_def)
    next
      case None
      let ?w1 = "w\<lparr>store := updateSteamIdStatus sid Processing (store w)\<rparr>"
      have w1: "rows_of (store ?w1) sid' = rows_of (store w) sid'"
        using ne by (simp add: rows_of_update_other)
      show ?thesis
      proof (cases "scrapePlayerStats (render_of e sid)")
        case (Inl m)
        with None assms w1 show ?thesis by (auto simp: try_block_def db_call_def)
      next
        case (Inr sr)
        show ?thesis
        proof (cases sr)
          case (ScrapeOk pd t n)
          with None Inr assms have b: "success_branch e sid logId pd t n ?w1 = (res, w')"
            by (simp add: try_block_def db_call_def)
          from sb_other [OF b ne] w1 show ?thesis by simp
        next
          case (ScrapeFailed err t)
          with None Inr assms have b: "failure_branch e sid logId err t ?w1 = (res, w')"
            by (simp add: try_block_def db_call_def)
          from fb_other [OF b ne] w1 show ?thesis by simp
        qed
      qed
    qed
  qed
  show "res = Inr r \<Longrightarrow> row \<in> set (rows_of (store w') sid) \<Longrightarrow>
           status row = (if item_success r then Completed else Failed)"
  proof -
    assume r: "res = Inr r" and row: "row \<in> set (rows_of (store w') sid)"
    show ?thesis
    proof (cases "db_fault e sid SSetProcessing")
      case (Some m)
      with assms r show ?thesis by (auto simp: try_block_def db_call_def)
    next
      case None
      let ?w1 = "w\<lparr>store := updateSteamIdStatus sid Processing (store w)\<rparr>"
      show ?thesis
      proof (cases "scrapePlayerStats (render_of e sid)")
        case (Inl m)
        with None assms r show ?thesis by (auto simp: try_block_def db_call_def)
      next
        case (Inr sr)
        show ?thesis
        proof (cases sr)
          case (ScrapeOk pd t n)
          with None Inr assms have b: "success_branch e sid logId pd t n ?w1 = (res, w')"
            by (simp add: try_block_def db_call_def)
          from sb_status [OF b r row] sb_result [OF b r] show ?thesis by simp
        next
          case (ScrapeFailed err t)
          with None Inr assms have b: "failure_branch e sid logId err t ?w1 = (res, w')"
            by (simp add: try_block_def db_call_def)
          from fb_status [OF b r row] fb_result [OF b r] show ?thesis by simp
        qed
      qed
    qed
  qed
  show "\<forall>pd t n. scrapePlayerStats (render_of e sid) \<noteq> Inr (ScrapeOk pd t n) \<Longrightarrow>
           written_as_failure sid (store w) (store w')"
  proof -
    assume no: "\<forall>pd t n. scrapePlayerStats (render_of e sid) \<noteq> Inr (ScrapeOk pd t n)"
    show ?thesis
    proof (cases "db_fault e sid SSetProcessing")
      case (Some m)
      with assms show ?thesis by (auto simp: try_block_def db_call_def written_as_failure_refl)
    next
      case None
      let ?w1 = "w\<lparr>store := updateSteamIdStatus sid Processing (store w)\<rparr>"
      have w1: "written_as_failure sid (store w) (store ?w1)"
        by (simp add: written_as_failure_same)
      show ?thesis
      proof (cases "scrapePlayerStats (render_of e sid)")
        case (Inl m)
        with None assms w1 show ?thesis by (auto simp: try_block_def db_call_def)
      next
        case (Inr sr)
        show ?thesis
        proof (cases sr)
          case (ScrapeOk pd t n)
          with Inr no show ?thesis by simp
        next
          case (ScrapeFailed err t)
          with None Inr assms have b: "failure_branch e sid logId err t ?w1 = (res, w')"
            by (simp add: try_block_def db_call_def)
          from written_as_failure_trans [OF w1 fb_written [OF b]] show ?thesis .
        qed
      qed
    qed
  qed
  show "res = Inr (ItemFailed i err) \<Longrightarrow>
           (\<exists>x \<in> set (player_stats (store w')). ps_steam_id64 x = sid)
           \<and> (\<forall>x \<in> set (player_stats (store w')). ps_steam_id64 x = sid \<longrightarrow>
                 \<not> scrape_success x \<and> error_message x = Some err)"
  proof -
    assume r: "res = Inr (ItemFailed i err)"
    show ?thesis
    proof (cases "db_fault e sid SSetProcessing")
      case (Some m)
      with assms r show ?thesis by (auto simp: try_block_def db_call_def)
    next
      case None
      let ?w1 = "w\<lparr>store := updateSteamIdStatus sid Processing (store w)\<rparr>"
      show ?thesis
      proof (cases "scrapePlayerStats (render_of e sid)")
        case (Inl m)
        with None assms r show ?thesis by (auto simp: try_block_def db_call_def)
      next
        case (Inr sr)
        show ?thesis
        proof (cases sr)
          case (ScrapeOk pd t n)
          with None Inr assms have b: "success_branch e sid logId pd t n ?w1 = (res, w')"
            by (simp add: try_block_def db_call_def)
          from sb_result [OF b r] show ?thesis by simp
        next
          case (ScrapeFailed err' t)
          with None Inr assms have b: "failure_branch e sid logId err' t ?w1 = (res, w')"
            by (simp add: try_block_def db_call_def)
          from fb_result [OF b r] have "err' = err" by simp
          with fb_row [OF b r] show ?thesis by simp
        qed
      qed
    qed
  qed
  show "res = Inr r \<Longrightarrow> (\<exists>n. r = ItemOk sid n) \<or> (\<exists>err. r = ItemFailed sid err)"
  proof -
    assume r: "res = Inr r"
    show ?thesis
    proof (cases "db_fault e sid SSetProcessing")
      case (Some m)
      with assms r show ?thesis by (auto simp: try_block_def db_call_def)
    next
      case None
      let ?w1 = "w\<lparr>store := updateSteamIdStatus sid Processing (store w)\<rparr>"
      show ?thesis
      proof (cases "scrapePlayerStats (render_of e sid)")
        case (Inl m)
        with None assms r show ?thesis by (auto simp: try_block_def db_call_def)
      next
        case (Inr sr)
        show ?thesis
        proof (cases sr)
          case (ScrapeOk pd t n)
          with None Inr assms have b: "success_branch e sid logId pd t n ?w1 = (res, w')"
            by (simp add: try_block_def db_call_def)
          from sb_result [OF b r] show ?thesis by simp
        next
          case (ScrapeFailed err t)
          with None Inr assms have b: "failure_branch e sid logId err t ?w1 = (res, w')"
            by (simp add: try_block_def db_call_def)
          from fb_result [OF b r] show ?thesis by simp
        qed
      qed
    qed
  qed
  show "res = Inr (ItemOk i n) \<Longrightarrow>
           (\<exists>pd t. scrapePlayerStats (render_of e sid) = Inr (ScrapeOk pd t n))
           \<and> db_fault e sid SSetProcessing = None \<and> db_fault e sid SSaveStats = None
           \<and> db_fault e sid SSetCompleted = None \<and> db_fault e sid SLogSuccess = None"
  proof -
    assume r: "res = Inr (ItemOk i n)"
    show ?thesis
    proof (cases "db_fault e sid SSetProcessing")
      case (Some m)
      with assms r show ?thesis by (auto simp: try_block_def db_call_def)
    next
      case None
      let ?w1 = "w\<lparr>store := updateSteamIdStatus sid Processing (store w)\<rparr>"
      show ?thesis
      proof (cases "scrapePlayerStats (render_of e sid)")
        case (Inl m)
        with None assms r show ?thesis by (auto simp: try_block_def db_call_def)
      next
        case (Inr sr)
        show ?thesis
        proof (cases sr)
          case (ScrapeOk pd t n')
          with None Inr assms have b: "success_branch e sid logId pd t n' ?w1 = (res, w')"
            by (simp add: try_block_def db_call_def)
          from sb_result [OF b r] have "n' = n" by simp
          with sb_ok [OF b r] None Inr ScrapeOk show ?thesis by simp
        next
          case (ScrapeFailed err t)
          with None Inr assms have b: "failure_branch e sid logId err t ?w1 = (res, w')"
            by (simp add: try_block_def db_call_def)
          from fb_result [OF b r] show ?thesis by simp
        qed
      qed
    qed
  qed
qed

section \<open>The per-item procedure\<close>

lemma operator_stop_simps [simp]:
  "store (operator_stop e sid w) = store w"
  "isRunning (mgr (operator_stop e sid w)) = (isRunning (mgr w) \<and> \<not> stop_during e sid)"
  "batchSize (mgr (operator_stop e sid w)) = batchSize (mgr w)"
  "processedCount (mgr (operator_stop e sid w)) = processedCount (mgr w)"
  "successCount (mgr (operator_stop e sid w)) = successCount (mgr w)"
  "failureCount (mgr (operator_stop e sid w)) = failureCount (mgr w)"
  by (simp_all add: operator_stop_def stopScraping_def)

lemma counted_simps [simp]:
  "isRunning (counted m res) = isRunning m"
  "batchSize (counted m res) = batchSize m"
  "processedCount (counted m res) = processedCount m"
  by (simp_all add: counted_def split: sum.splits)

lemma count_processed_simps [simp]:
  "store (count_processed w) = store w"
  "isRunning (mgr (count_processed w)) = isRunning (mgr w)"
  "batchSize (mgr (count_processed w)) = batchSize (mgr w)"
  "processedCount (mgr (count_processed w)) = processedCount (mgr w) + 1"
  "successCount (mgr (count_processed w)) = successCount (mgr w)"
  "failureCount (mgr (count_processed w)) = failureCount (mgr w)"
  by (simp_all add: count_processed_def)

lemma processSingleSteamId_cases:
  assumes "processSingleSteamId e sid w = (res, w')"
  obtains (start_fault) m where "db_fault e sid SLogStart = Some m" "res = Inl m"
      "w' = operator_stop e sid w"
  | (tried) r w2 where "db_fault e sid SLogStart = None"
      "try_block e sid (fst (logScrapeStart sid (store w)))
         ((operator_stop e sid w)\<lparr>store := snd (logScrapeStart sid (store w))\<rparr>) = (Inr r, w2)"
      "res = Inr r" "w' = count_processed w2"
  | (caught) err w2 w3 where "db_fault e sid SLogStart = None"
      "try_block e sid (fst (logScrapeStart sid (store w)))
         ((operator_stop e sid w)\<lparr>store := snd (logScrapeStart sid (store w))\<rparr>) = (Inl err, w2)"
      "catch_block e sid (fst (logScrapeStart sid (store w))) err w2 = (res, w3)"
      "w' = count_processed w3"
proof (cases "db_fault e sid SLogStart")
  case (Some m)
  with assms have "res = Inl m" "w' = operator_stop e sid w"
    by (auto simp: processSingleSteamId_def Let_def)
  with Some show ?thesis by (rule start_fault)
next
  case None
  let ?L = "logScrapeStart sid (store w)"
  let ?W1 = "(operator_stop e sid w)\<lparr>store := snd ?L\<rparr>"
  obtain tr w2 where t: "try_block e sid (fst ?L) ?W1 = (tr, w2)"
    by (cases "try_block e sid (fst ?L) ?W1") auto
  show ?thesis
  proof (cases tr)
    case (Inr r)
    with None t assms have "res = Inr r" "w' = count_processed w2"
      by (auto simp: processSingleSteamId_def Let_def split_beta)
    with None t Inr show ?thesis by (auto intro: tried)
  next
    case (Inl err)
    obtain cr w3 where c: "catch_block e sid (fst ?L) err w2 = (cr, w3)"
      by (cases "catch_block e sid (fst ?L) err w2") auto
    with None t Inl assms have "res = cr" "w' = count_processed w3"
      by (auto simp: processSingleSteamId_def Let_def split_beta)
    with None t Inl c show ?thesis by (auto intro: caught)
  qed
qed

lemma item_summary:
  assumes "processSingleSteamId e sid w = (res, w')"
  shows ps_running: "isRunning (mgr w') = (isRunning (mgr w) \<and> \<not> stop_during e sid)"
    and ps_batchSize: "batchSize (mgr w') = batchSize (mgr w)"
    and ps_processed: "processedCount (mgr w')
           = processedCount (mgr w) + (if db_fault e sid SLogStart = None then 1 else 0)"
    and ps_other: "sid' \<noteq> sid \<Longrightarrow> rows_of (store w') sid' = rows_of (store w) sid'"
    and ps_status: "res = Inr r \<Longrightarrow> row \<in> set (rows_of (store w') sid) \<Longrightarrow>
           status row = (if item_success r then Completed else Failed)"
    and ps_result: "res = Inr r \<Longrightarrow> (\<exists>n. r = ItemOk sid n) \<or> (\<exists>err. r = ItemFailed sid err)"
    and ps_row: "res = Inr (ItemFailed i err) \<Longrightarrow>
           (\<exists>x \<in> set (player_stats (store w')). ps_steam_id64 x = sid)
           \<and> (\<forall>x \<in> set (player_stats (store w')). ps_steam_id64 x = sid \<longrightarrow>
                 \<not> scrape_success x \<and> error_message x = Some err)"
    and ps_ok: "res = Inr (ItemOk i n) \<Longrightarrow>
           (\<exists>pd t. scrapePlayerStats (render_of e sid) = Inr (ScrapeOk pd t n))
           \<and> db_fault e sid SSetProcessing = None \<and> db_fault e sid SSaveStats = None
           \<and> db_fault e sid SSetCompleted = None \<and> db_fault e sid SLogSuccess = None"
    and ps_written: "\<forall>pd t n. scrapePlayerStats (render_of e sid) \<noteq> Inr (ScrapeOk pd t n) \<Longrightarrow>
           written_as_failure sid (store w) (store w')"
    and ps_total: "unguarded_ok e sid \<Longrightarrow> \<exists>r. res = Inr r"
    and ps_counts: "res = Inr r \<Longrightarrow>
           successCount (mgr w') = successCount (mgr w) + (if item_success r then 1 else 0)
           \<and> failureCount (mgr w') = failureCount (mgr w) + (if item_success r then 0 else 1)"
proof -
  let ?L = "logScrapeStart sid (store w)"
  let ?W1 = "(operator_stop e sid w)\<lparr>store := snd ?L\<rparr>"
  have W1_rows: "rows_of (store ?W1) = rows_of (store w)" by simp
  have W1_stats: "player_stats (store ?W1) = player_stats (store w)" by simp
  show "isRunning (mgr w') = (isRunning (mgr w) \<and> \<not> stop_during e sid)"
    using assms
  proof (cases rule: processSingleSteamId_cases)
    case (start_fault m)
    then show ?thesis by simp
  next
    case (tried r w2)
    from tb_mgr [OF tried(2)] tried(4) show ?thesis by simp
  next
    case (caught err w2 w3)
    from tb_mgr [OF caught(2)] cb_mgr [OF caught(3)] caught(4) show ?thesis
      by (cases res) (simp_all add: counted_def)
  qed
  show "batchSize (mgr w') = batchSize (mgr w)"
    using assms
  proof (cases rule: processSingleSteamId_cases)
    case (start_fault m)
    then show ?thesis by simp
  next
    case (tried r w2)
    from tb_mgr [OF tried(2)] tried(4) show ?thesis by simp
  next
    case (caught err w2 w3)
    from tb_mgr [OF caught(2)] cb_mgr [OF caught(3)] caught(4) show ?thesis
      by (cases res) (simp_all add: counted_def)
  qed
  show "processedCount (mgr w')
           = processedCount (mgr w) + (if db_fault e sid SLogStart = None then 1 else 0)"
    using assms
  proof (cases rule: processSingleSteamId_cases)
    case (start_fault m)
    then show ?thesis by simp
  next
    case (tried r w2)
    from tb_mgr [OF tried(2)] tried(1,4) show ?thesis by simp
  next
    case (caught err w2 w3)
    from tb_mgr [OF caught(2)] cb_mgr [OF caught(3)] caught(1,4) show ?thesis
      by (cases res) (simp_all add: counted_def)
  qed
  show "sid' \<noteq> sid \<Longrightarrow> rows_of (store w') sid' = rows_of (store w) sid'"
  proof -
    assume ne: "sid' \<noteq> sid"
    from assms show ?thesis
    proof (cases rule: processSingleSteamId_cases)
      case (start_fault m)
      then show ?thesis by simp
    next
      case (tried r w2)
      from tb_other [OF tried(2) ne] tried(4) W1_rows show ?thesis by simp
    next
      case (caught err w2 w3)
      from tb_other [OF caught(2) ne] cb_other [OF caught(3) ne] caught(4) W1_rows
      show ?thesis by simp
    qed
  qed
  show "res = Inr r \<Longrightarrow> row \<in> set (rows_of (store w') sid) \<Longrightarrow>
           status row = (if item_success r then Completed else Failed)"
  proof -
    assume r: "res = Inr r" and row: "row \<in> set (rows_of (store w') sid)"
    from assms show ?thesis
    proof (cases rule: processSingleSteamId_cases)
      case (start_fault m)
      with r show ?thesis by simp
    next
      case (tried r' w2)
      with r row have "r' = r" "row \<in> set (rows_of (store w2) sid)" by simp_all
      with tb_status [OF tried(2)] show ?thesis by simp
    next
      case (caught err w2 w3)
      with row have "row \<in> set (rows_of (store w3) sid)" by simp
      from cb_status [OF caught(3) r this] cb_result [OF caught(3) r] show ?thesis by simp
    qed
  qed
  show "res = Inr r \<Longrightarrow> (\<exists>n. r = ItemOk sid n) \<or> (\<exists>err. r = ItemFailed sid err)"
  proof -
    assume r: "res = Inr r"
    from assms show ?thesis
    proof (cases rule: processSingleSteamId_cases)
      case (start_fault m)
      with r show ?thesis by simp
    next
      case (tried r' w2)
      with r have "r' = r" by simp
      with tb_result [OF tried(2)] show ?thesis by simp
    next
      case (caught err w2 w3)
      from cb_result [OF caught(3) r] show ?thesis by simp
    qed
  qed
  show "res = Inr (ItemFailed i err) \<Longrightarrow>
           (\<exists>x \<in> set (player_stats (store w')). ps_steam_id64 x = sid)
           \<and> (\<forall>x \<in> set (player_stats (store w')). ps_steam_id64 x = sid \<longrightarrow>
                 \<not> scrape_success x \<and> error_message x = Some err)"
  proof -
    assume r: "res = Inr (ItemFailed i err)"
    from assms show ?thesis
    proof (cases rule: processSingleSteamId_cases)
      case (start_fault m)
      with r show ?thesis by simp
    next
      case (tried r' w2)
      with r have t: "try_block e sid (fst ?L) ?W1 = (Inr (ItemFailed i err), w2)" by simp
      from tb_row [OF t] tried(4) show ?thesis by simp
    next
      case (caught err' w2 w3)
      from cb_result [OF caught(3) r] have "err' = err" by simp
      with cb_row [OF caught(3) r] caught(4) show ?thesis by simp
    qed
  qed
  show "res = Inr (ItemOk i n) \<Longrightarrow>
           (\<exists>pd t. scrapePlayerStats (render_of e sid) = Inr (ScrapeOk pd t n))
           \<and> db_fault e sid SSetProcessing = None \<and> db_fault e sid SSaveStats = None
           \<and> db_fault e sid SSetCompleted = None \<and> db_fault e sid SLogSuccess = None"
  proof -
    assume r: "res = Inr (ItemOk i n)"
    from assms show ?thesis
    proof (cases rule: processSingleSteamId_cases)
      case (start_fault m)
      with r show ?thesis by simp
    next
      case (tried r' w2)
      with r have t: "try_block e sid (fst ?L) ?W1 = (Inr (ItemOk i n), w2)" by simp
      from tb_ok [OF t] show ?thesis by simp
    next
      case (caught err' w2 w3)
      from cb_result [OF caught(3) r] show ?thesis by simp
    qed
  qed
  show "\<forall>pd t n. scrapePlayerStats (render_of e sid) \<noteq> Inr (ScrapeOk pd t n) \<Longrightarrow>
           written_as_failure sid (store w) (store w')"
  proof -
    assume no: "\<forall>pd t n. scrapePlayerStats (render_of e sid) \<noteq> Inr (ScrapeOk pd t n)"
    have start: "written_as_failure sid (store w) (store ?W1)"
      by (rule written_as_failure_same) simp
    from assms show ?thesis
    proof (cases rule: processSingleSteamId_cases)
      case (start_fault m)
      then show ?thesis by (simp add: written_as_failure_refl)
    next
      case (tried r' w2)
      from written_as_failure_trans [OF start tb_written [OF tried(2) no]] tried(4)
      show ?thesis by simp
    next
      case (caught err' w2 w3)
      from written_as_failure_trans [OF written_as_failure_trans
          [OF start tb_written [OF caught(2) no]] cb_written [OF caught(3)]] caught(4)
      show ?thesis by simp
    qed
  qed
  show "unguarded_ok e sid \<Longrightarrow> \<exists>r. res = Inr r"
  proof -
    assume ok: "unguarded_ok e sid"
    from assms show ?thesis
    proof (cases rule: processSingleSteamId_cases)
      case (start_fault m)
      with ok show ?thesis by (simp add: unguarded_ok_def)
    next
      case (tried r' w2)
      then show ?thesis by simp
    next
      case (caught err' w2 w3)
      from cb_total [OF caught(3)] ok show ?thesis by (simp add: unguarded_ok_def)
    qed
  qed
  show "res = Inr r \<Longrightarrow>
           successCount (mgr w') = successCount (mgr w) + (if item_success r then 1 else 0)
           \<and> failureCount (mgr w') = failureCount (mgr w) + (if item_success r then 0 else 1)"
  proof -
    assume r: "res = Inr r"
    from assms show ?thesis
    proof (cases rule: processSingleSteamId_cases)
      case (start_fault m)
      with r show ?thesis by simp
    next
      case (tried r' w2)
      with r have "r' = r" by simp
      with tb_mgr [OF tried(2)] tried(4) show ?thesis by (simp add: counted_def)
    next
      case (caught err' w2 w3)
      from tb_mgr [OF caught(2)] cb_mgr [OF caught(3)] cb_result [OF caught(3) r] r caught(4)
      show ?thesis by (simp add: counted_def)
    qed
  qed
qed

section \<open>The execution log of an item\<close>

lemma scrape_logs_frame [simp]:
  "scrape_logs (savePlayerStats sid pd d) = scrape_logs d"
  "scrape_logs (savePlayerStatsError sid err d) = scrape_logs d"
  "scrape_logs (updateSteamIdStatus sid st d) = scrape_logs d"
  by (simp_all add: savePlayerStats_def savePlayerStatsError_def updateSteamIdStatus_def)

lemma log_failure_marks:
  assumes "\<exists>l \<in> set (scrape_logs d). log_id l = logId \<and> log_steam_id64 l = sid"
  shows "\<exists>l \<in> set (scrape_logs (logScrapeFailure logId sid t err d)).
           log_steam_id64 l = sid \<and> log_status l = LogFailed \<and> message l = err"
proof -
  from assms obtain l where l: "l \<in> set (scrape_logs d)" "log_id l = logId" "log_steam_id64 l = sid"
    by blast
  let ?l = "l\<lparr>log_status := LogFailed, message := err, execution_time := Some t\<rparr>"
  from l have "?l \<in> set (scrape_logs (logScrapeFailure logId sid t err d))"
    by (force simp: logScrapeFailure_def)
  moreover from l have "log_steam_id64 ?l = sid \<and> log_status ?l = LogFailed \<and> message ?l = err"
    by simp
  ultimately show ?thesis by blast
qed

lemma log_start_entry:
  "\<exists>l \<in> set (scrape_logs (snd (logScrapeStart sid d))).
     log_id l = fst (logScrapeStart sid d) \<and> log_steam_id64 l = sid"
  by (simp add: logScrapeStart_def Let_def)

lemma failure_branch_log:
  assumes "failure_branch e sid logId err t w = (res, w')"
  shows fb_log: "res = Inr r \<Longrightarrow>
           \<exists>l \<in> set (scrape_logs (store w)). log_id l = logId \<and> log_steam_id64 l = sid \<Longrightarrow>
           \<exists>l \<in> set (scrape_logs (store w')).
             log_steam_id64 l = sid \<and> log_status l = LogFailed \<and> message l = err"
    and fb_log_throw: "res = Inl m \<Longrightarrow> scrape_logs (store w') = scrape_logs (store w)"
proof -
  show "res = Inr r \<Longrightarrow>
           \<exists>l \<in> set (scrape_logs (store w)). log_id l = logId \<and> log_steam_id64 l = sid \<Longrightarrow>
           \<exists>l \<in> set (scrape_logs (store w')).
             log_steam_id64 l = sid \<and> log_status l = LogFailed \<and> message l = err"
    using assms
      log_failure_marks [of "updateSteamIdStatus sid Failed (savePlayerStatsError sid err (store w))"
        logId sid t err]
    by (auto simp: failure_branch_def db_call_def count_failure_def split: option.splits)
  show "res = Inl m \<Longrightarrow> scrape_logs (store w') = scrape_logs (store w)"
    using assms
    by (auto simp: failure_branch_def db_call_def count_failure_def split: option.splits)
qed

lemma catch_block_log:
  assumes "catch_block e sid logId err w = (res, w')"
  shows cb_log: "res = Inr r \<Longrightarrow>
           \<exists>l \<in> set (scrape_logs (store w)). log_id l = logId \<and> log_steam_id64 l = sid \<Longrightarrow>
           \<exists>l \<in> set (scrape_logs (store w')).
             log_steam_id64 l = sid \<and> log_status l = LogFailed \<and> message l = err"
  using assms
    log_failure_marks [of "updateSteamIdStatus sid Failed (savePlayerStatsError sid err (store w))"
      logId sid 0 err]
  by (auto simp: catch_block_def db_call_def count_failure_def split: option.splits)

lemma success_branch_log_throw:
  assumes "success_branch e sid logId pd t n w = (res, w')" and "res = Inl m"
  shows "scrape_logs (store w') = scrape_logs (store w)"
  using assms
  by (auto simp: success_branch_def db_call_def count_success_def split: option.splits)

lemma try_block_log:
  assumes "try_block e sid logId w = (res, w')"
  shows tb_log: "res = Inr (ItemFailed i err) \<Longrightarrow>
           \<exists>l \<in> set (scrape_logs (store w)). log_id l = logId \<and> log_steam_id64 l = sid \<Longrightarrow>
           \<exists>l \<in> set (scrape_logs (store w')).
             log_steam_id64 l = sid \<and> log_status l = LogFailed \<and> message l = err"
    and tb_log_throw: "res = Inl m \<Longrightarrow> scrape_logs (store w') = scrape_logs (store w)"
proof -
  let ?w1 = "w\<lparr>store := updateSteamIdStatus sid Processing (store w)\<rparr>"
  have w1: "scrape_logs (store ?w1) = scrape_logs (store w)" by simp
  show "res = Inr (ItemFailed i err) \<Longrightarrow>
           \<exists>l \<in> set (scrape_logs (store w)). log_id l = logId \<and> log_steam_id64 l = sid \<Longrightarrow>
           \<exists>l \<in> set (scrape_logs (store w')).
             log_steam_id64 l = sid \<and> log_status l = LogFailed \<and> message l = err"
  proof -
    assume r: "res = Inr (ItemFailed i err)"
      and has: "\<exists>l \<in> set (scrape_logs (store w)). log_id l = logId \<and> log_steam_id64 l = sid"
    show ?thesis
    proof (cases "db_fault e sid SSetProcessing")
      case (Some m)
      with assms r show ?thesis by (auto simp: try_block_def db_call_def)
    next
      case None
      show ?thesis
      proof (cases "scrapePlayerStats (render_of e sid)")
        case (Inl m)
        with None assms r show ?thesis by (auto simp: try_block_def db_call_def)
      next
        case (Inr sr)
        show ?thesis
        proof (cases sr)
          case (ScrapeOk pd t n)
          with None Inr assms have b: "success_branch e sid logId pd t n ?w1 = (res, w')"
            by (simp add: try_block_def db_call_def)
          from sb_result [OF b r] show ?thesis by simp
        next
          case (ScrapeFailed err' t)
          with None Inr assms have b: "failure_branch e sid logId err' t ?w1 = (res, w')"
            by (simp add: try_block_def db_call_def)
          from fb_result [OF b r] have "err' = err" by simp
          with fb_log [OF b r] has w1 show ?thesis by simp
        qed
      qed
    qed
  qed
  show "res = Inl m \<Longrightarrow> scrape_logs (store w') = scrape_logs (store w)"
  proof -
    assume r: "res = Inl m"
    show ?thesis
    proof (cases "db_fault e sid SSetProcessing")
      case (Some m')
      with assms show ?thesis by (auto simp: try_block_def db_call_def)
    next
      case None
      show ?thesis
      proof (cases "scrapePlayerStats (render_of e sid)")
        case (Inl m')
        with None assms show ?thesis by (auto simp: try_block_def db_call_def)
      next
        case (Inr sr)
        show ?thesis
        proof (cases sr)
          case (ScrapeOk pd t n)
          with None Inr assms have b: "success_branch e sid logId pd t n ?w1 = (res, w')"
            by (simp add: try_block_def db_call_def)
          from success_branch_log_throw [OF b r] w1 show ?thesis by simp
        next
          case (ScrapeFailed err' t)
          with None Inr assms have b: "failure_branch e sid logId err' t ?w1 = (res, w')"
            by (simp add: try_block_def db_call_def)
          from fb_log_throw [OF b r] w1 show ?thesis by simp
        qed
      qed
    qed
  qed
qed

lemma item_log:
  assumes "processSingleSteamId e sid w = (Inr (ItemFailed i err), w')"
  shows "\<exists>l \<in> set (scrape_logs (store w')).
           log_steam_id64 l = sid \<and> log_status l = LogFailed \<and> message l = err"
proof -
  let ?L = "logScrapeStart sid (store w)"
  let ?W1 = "(operator_stop e sid w)\<lparr>store := snd ?L\<rparr>"
  have start: "\<exists>l \<in> set (scrape_logs (store ?W1)). log_id l = fst ?L \<and> log_steam_id64 l = sid"
    using log_start_entry [of sid "store w"] by simp
  from assms show ?thesis
  proof (cases rule: processSingleSteamId_cases)
    case (start_fault m)
    then show ?thesis by simp
  next
    case (tried r w2)
    then have t: "try_block e sid (fst ?L) ?W1 = (Inr (ItemFailed i err), w2)" by simp
    from tb_log [OF t _ start] tried(4) show ?thesis by simp
  next
    case (caught err' w2 w3)
    from cb_result [OF caught(3)] have e: "err' = err" by simp
    from tb_log_throw [OF caught(2)] start
    have "\<exists>l \<in> set (scrape_logs (store w2)). log_id l = fst ?L \<and> log_steam_id64 l = sid"
      by simp
    from cb_log [OF caught(3) _ this] e caught(4) show ?thesis by simp
  qed
qed

section \<open>The batch loop\<close>


lemma batch_loop_step:
  assumes "isRunning (mgr w)" and "processSingleSteamId e (steam_id64 p) w = (Inr r, w1)"
  shows "batch_loop e (p # ps) rs w = batch_loop e ps (rs @ [r]) w1"
  using assms by simp


lemma batch_loop_prefix:
  assumes "\<forall>p \<in> set pre. unguarded_ok e (steam_id64 p) \<and> \<not> stop_during e (steam_id64 p)"
    and "isRunning (mgr w)"
  shows "\<exists>results w'.
      (\<forall>rest. batch_loop e (pre @ rest) rs w = batch_loop e rest (rs @ results) w')
      \<and> length results = length pre
      \<and> isRunning (mgr w')
      \<and> batchSize (mgr w') = batchSize (mgr w)
      \<and> processedCount (mgr w') = processedCount (mgr w) + length pre
      \<and> successCount (mgr w') = successCount (mgr w) + length (filter item_success results)
      \<and> failureCount (mgr w')
          = failureCount (mgr w) + length (filter (\<lambda>r. \<not> item_success r) results)
      \<and> (\<forall>sid. sid \<notin> steam_id64 ` set pre \<longrightarrow> rows_of (store w') sid = rows_of (store w) sid)
      \<and> (\<forall>sid \<in> steam_id64 ` set pre. \<forall>row \<in> set (rows_of (store w') sid).
            status row = Completed \<or> status row = Failed)"
  using assms
proof (induction pre arbitrary: rs w)
  case Nil
  show ?case
    by (rule exI [of _ "[]"], rule exI [of _ w]) (simp add: Nil.prems)
next
  case (Cons p pre)
  let ?sid = "steam_id64 p"
  obtain res w1 where item: "processSingleSteamId e ?sid w = (res, w1)"
    by (cases "processSingleSteamId e ?sid w") auto
  from Cons.prems have ok: "unguarded_ok e ?sid" and ns: "\<not> stop_during e ?sid" by simp_all
  from ps_total [OF item ok] obtain r where r: "res = Inr r" by blast
  from ps_running [OF item] ns Cons.prems(2) have run1: "isRunning (mgr w1)" by simp
  from Cons.prems(1)
  have pre_ok: "\<forall>q \<in> set pre. unguarded_ok e (steam_id64 q) \<and> \<not> stop_during e (steam_id64 q)"
    by simp
  from Cons.IH [OF pre_ok run1, of "rs @ [r]"] obtain results w' where
    loop: "\<forall>rest. batch_loop e (pre @ rest) (rs @ [r]) w1 = batch_loop e rest ((rs @ [r]) @ results) w'"
    and len: "length results = length pre"
    and run: "isRunning (mgr w')"
    and bs: "batchSize (mgr w') = batchSize (mgr w1)"
    and pc: "processedCount (mgr w') = processedCount (mgr w1) + length pre"
    and sc: "successCount (mgr w') = successCount (mgr w1) + length (filter item_success results)"
    and fc: "failureCount (mgr w')
          = failureCount (mgr w1) + length (filter (\<lambda>r. \<not> item_success r) results)"
    and frame: "\<forall>sid. sid \<notin> steam_id64 ` set pre \<longrightarrow> rows_of (store w') sid = rows_of (store w1) sid"
    and fin: "\<forall>sid \<in> steam_id64 ` set pre. \<forall>row \<in> set (rows_of (store w') sid).
            status row = Completed \<or> status row = Failed"
    by blast
  have loop': "\<forall>rest. batch_loop e ((p # pre) @ rest) rs w = batch_loop e rest (rs @ (r # results)) w'"
    using batch_loop_step [OF Cons.prems(2) item [unfolded r]] loop by simp
  have pc': "processedCount (mgr w') = processedCount (mgr w) + length (p # pre)"
    using ps_processed [OF item] ok pc by (simp add: unguarded_ok_def)
  have sc': "successCount (mgr w') = successCount (mgr w) + length (filter item_success (r # results))"
    using ps_counts [OF item r] sc by simp
  have fc': "failureCount (mgr w')
      = failureCount (mgr w) + length (filter (\<lambda>r. \<not> item_success r) (r # results))"
    using ps_counts [OF item r] fc by simp
  have frame': "\<forall>sid. sid \<notin> steam_id64 ` set (p # pre) \<longrightarrow> rows_of (store w') sid = rows_of (store w) sid"
  proof (intro allI impI)
    fix sid assume "sid \<notin> steam_id64 ` set (p # pre)"
    then have "sid \<noteq> ?sid" "sid \<notin> steam_id64 ` set pre" by auto
    with frame ps_other [OF item, of sid] show "rows_of (store w') sid = rows_of (store w) sid"
      by simp
  qed
  have fin': "\<forall>sid \<in> steam_id64 ` set (p # pre). \<forall>row \<in> set (rows_of (store w') sid).
            status row = Completed \<or> status row = Failed"
  proof (intro ballI)
    fix sid row
    assume sid: "sid \<in> steam_id64 ` set (p # pre)" and row: "row \<in> set (rows_of (store w') sid)"
    show "status row = Completed \<or> status row = Failed"
    proof (cases "sid \<in> steam_id64 ` set pre")
      case True
      with fin row show ?thesis by blast
    next
      case False
      with sid have "sid = ?sid" by auto
      with False frame row have "row \<in> set (rows_of (store w1) ?sid)" by simp
      from ps_status [OF item r this] show ?thesis by simp
    qed
  qed
  show ?case
    apply (rule exI [of _ "r # results"], rule exI [of _ w'])
    using loop' len run bs ps_batchSize [OF item] pc' sc' fc' frame' fin'
    apply (intro conjI)
    apply simp_all
    done
qed

section \<open>Batches\<close>

lemma row_terminal:
  assumes "\<forall>sid \<in> S. \<forall>row \<in> set (rows_of d sid). status row = Completed \<or> status row = Failed"
    and "row \<in> set (steam_ids d)" and "steam_id64 row \<in> S"
  shows "status row = Completed \<or> status row = Failed"
  using assms rows_of_member [of row d] by blast


lemma processBatch_nonempty:
  assumes "select_fault e = None"
    and "getPendingSteamIds (batchSize (mgr w)) (steam_ids (store w)) = batch" and "batch \<noteq> []"
    and "batch_loop e batch [] w = (Inr results, w')"
  shows "processBatch e w =
     (Inr \<lparr>processed = length results,
           successful = Some (length (filter item_success results)),
           failed = Some (length (filter (\<lambda>r. \<not> item_success r) results)),
           completed = False\<rparr>, w')"
  using assms by (simp add: processBatch_def Let_def)

lemma item_captured:
  assumes ok: "unguarded_ok e sid"
  shows "\<exists>r w1. processSingleSteamId e sid w0 = (Inr r, w1)
      \<and> processedCount (mgr w1) = processedCount (mgr w0) + 1
      \<and> (item_success r \<longrightarrow>
            (\<exists>pd t n. scrapePlayerStats (render_of e sid) = Inr (ScrapeOk pd t n))
            \<and> db_fault e sid SSetProcessing = None \<and> db_fault e sid SSaveStats = None
            \<and> db_fault e sid SSetCompleted = None \<and> db_fault e sid SLogSuccess = None
            \<and> (\<forall>row \<in> set (steam_ids (store w1)). steam_id64 row = sid \<longrightarrow> status row = Completed))
      \<and> (\<not> item_success r \<longrightarrow>
            (\<exists>err. r = ItemFailed sid err
               \<and> (\<exists>x \<in> set (player_stats (store w1)). ps_steam_id64 x = sid)
               \<and> (\<forall>x \<in> set (player_stats (store w1)). ps_steam_id64 x = sid \<longrightarrow>
                     \<not> scrape_success x \<and> error_message x = Some err)
               \<and> (\<exists>l \<in> set (scrape_logs (store w1)).
                     log_steam_id64 l = sid \<and> log_status l = LogFailed \<and> message l = err))
            \<and> (\<forall>row \<in> set (steam_ids (store w1)). steam_id64 row = sid \<longrightarrow> status row = Failed))"
proof -
  obtain res w1 where item: "processSingleSteamId e sid w0 = (res, w1)"
    by (cases "processSingleSteamId e sid w0") auto
  from ps_total [OF item ok] obtain r where r: "res = Inr r" by blast
  have pc: "processedCount (mgr w1) = processedCount (mgr w0) + 1"
    using ps_processed [OF item] ok by (simp add: unguarded_ok_def)
  have st: "\<forall>row \<in> set (steam_ids (store w1)). steam_id64 row = sid \<longrightarrow>
      status row = (if item_success r then Completed else Failed)"
    using ps_status [OF item r] rows_of_member by blast
  have good: "item_success r \<longrightarrow>
            (\<exists>pd t n. scrapePlayerStats (render_of e sid) = Inr (ScrapeOk pd t n))
            \<and> db_fault e sid SSetProcessing = None \<and> db_fault e sid SSaveStats = None
            \<and> db_fault e sid SSetCompleted = None \<and> db_fault e sid SLogSuccess = None"
  proof
    assume "item_success r"
    then obtain i n where "r = ItemOk i n" by (cases r) auto
    with r ps_ok [OF item, of i n] show "(\<exists>pd t n. scrapePlayerStats (render_of e sid) = Inr (ScrapeOk pd t n))
            \<and> db_fault e sid SSetProcessing = None \<and> db_fault e sid SSaveStats = None
            \<and> db_fault e sid SSetCompleted = None \<and> db_fault e sid SLogSuccess = None"
      by blast
  qed
  have bad: "\<not> item_success r \<longrightarrow>
            (\<exists>err. r = ItemFailed sid err
               \<and> (\<exists>x \<in> set (player_stats (store w1)). ps_steam_id64 x = sid)
               \<and> (\<forall>x \<in> set (player_stats (store w1)). ps_steam_id64 x = sid \<longrightarrow>
                     \<not> scrape_success x \<and> error_message x = Some err)
               \<and> (\<exists>l \<in> set (scrape_logs (store w1)).
                     log_steam_id64 l = sid \<and> log_status l = LogFailed \<and> message l = err))"
  proof
    assume "\<not> item_success r"
    with ps_result [OF item r] obtain err where err: "r = ItemFailed sid err" by auto
    with r ps_row [OF item, of sid err] item_log [of e sid w0 sid err w1] item show "\<exists>err. r = ItemFailed sid err
               \<and> (\<exists>x \<in> set (player_stats (store w1)). ps_steam_id64 x = sid)
               \<and> (\<forall>x \<in> set (player_stats (store w1)). ps_steam_id64 x = sid \<longrightarrow>
                     \<not> scrape_success x \<and> error_message x = Some err)
               \<and> (\<exists>l \<in> set (scrape_logs (store w1)).
                     log_steam_id64 l = sid \<and> log_status l = LogFailed \<and> message l = err)"
      by blast
  qed
  from item r pc st good bad show ?thesis by auto
qed

text \<open>
  C4, as amended. Take a batch in which, for every item, the calls that no \<open>try\<close> guards
  (\<open>logScrapeStart\<close> and the three calls of the \<open>catch\<close>) do not throw, and during
  which no stop is asked for. Then for every item the per-item procedure returns a result
  from any state: whatever the scrape reports or throws and whichever database call inside
  the \<open>try\<close> throws, nothing leaves the procedure, the processed counter grows by one,
  and an item whose scrape did not succeed or whose \<open>try\<close> met a database fault gets a
  failed result, a stat row with \<open>success = false\<close> and the error message, a log entry
  in phase failed with that message, and the status failed. The batch returns with
  \<open>processed\<close> equal to the number of items, the processed counter grows by that number,
  the success and failure counters together grow by that number, and every identifier of
  the batch ends completed or failed.
\<close>

theorem failures_are_isolated:
  assumes "select_fault e = None" and "isRunning (mgr w)"
    and "getPendingSteamIds (batchSize (mgr w)) (steam_ids (store w)) = batch"
    and "\<forall>p \<in> set batch. unguarded_ok e (steam_id64 p) \<and> \<not> stop_during e (steam_id64 p)"
  shows "(\<forall>p \<in> set batch. \<forall>w0. \<exists>r w1.
            processSingleSteamId e (steam_id64 p) w0 = (Inr r, w1)
            \<and> processedCount (mgr w1) = processedCount (mgr w0) + 1
            \<and> (\<not> item_success r \<longrightarrow>
                 (\<exists>err. r = ItemFailed (steam_id64 p) err
                    \<and> (\<exists>x \<in> set (player_stats (store w1)). ps_steam_id64 x = steam_id64 p)
                    \<and> (\<forall>x \<in> set (player_stats (store w1)). ps_steam_id64 x = steam_id64 p \<longrightarrow>
                          \<not> scrape_success x \<and> error_message x = Some err)
                    \<and> (\<exists>l \<in> set (scrape_logs (store w1)).
                          log_steam_id64 l = steam_id64 p \<and> log_status l = LogFailed \<and> message l = err))
                 \<and> (\<forall>row \<in> set (steam_ids (store w1)).
                       steam_id64 row = steam_id64 p \<longrightarrow> status row = Failed))
            \<and> ((\<forall>pd t n. scrapePlayerStats (render_of e (steam_id64 p)) \<noteq> Inr (ScrapeOk pd t n))
                 \<or> db_fault e (steam_id64 p) SSetProcessing \<noteq> None
                 \<or> db_fault e (steam_id64 p) SSaveStats \<noteq> None
                 \<or> db_fault e (steam_id64 p) SSetCompleted \<noteq> None
                 \<or> db_fault e (steam_id64 p) SLogSuccess \<noteq> None
                 \<longrightarrow> \<not> item_success r))
     \<and> (\<exists>r w'. processBatch e w = (Inr r, w')
            \<and> processed r = length batch
            \<and> processedCount (mgr w') = processedCount (mgr w) + length batch
            \<and> successCount (mgr w') + failureCount (mgr w')
                = successCount (mgr w) + failureCount (mgr w) + length batch
            \<and> (\<forall>row \<in> set (steam_ids (store w')). steam_id64 row \<in> steam_id64 ` set batch \<longrightarrow>
                  status row = Completed \<or> status row = Failed))"
proof (intro conjI ballI allI)
  fix p w0
  assume "p \<in> set batch"
  with assms(4) have ok: "unguarded_ok e (steam_id64 p)" by simp
  from item_captured [OF ok, of w0] obtain r w1 where
    a: "processSingleSteamId e (steam_id64 p) w0 = (Inr r, w1)"
    and b: "processedCount (mgr w1) = processedCount (mgr w0) + 1"
    and c: "item_success r \<longrightarrow>
            (\<exists>pd t n. scrapePlayerStats (render_of e (steam_id64 p)) = Inr (ScrapeOk pd t n))
            \<and> db_fault e (steam_id64 p) SSetProcessing = None \<and> db_fault e (steam_id64 p) SSaveStats = None
            \<and> db_fault e (steam_id64 p) SSetCompleted = None \<and> db_fault e (steam_id64 p) SLogSuccess = None
            \<and> (\<forall>row \<in> set (steam_ids (store w1)). steam_id64 row = steam_id64 p \<longrightarrow> status row = Completed)"
    and d: "\<not> item_success r \<longrightarrow>
            (\<exists>err. r = ItemFailed (steam_id64 p) err
               \<and> (\<exists>x \<in> set (player_stats (store w1)). ps_steam_id64 x = steam_id64 p)
               \<and> (\<forall>x \<in> set (player_stats (store w1)). ps_steam_id64 x = steam_id64 p \<longrightarrow>
                     \<not> scrape_success x \<and> error_message x = Some err)
               \<and> (\<exists>l \<in> set (scrape_logs (store w1)).
                     log_steam_id64 l = steam_id64 p \<and> log_status l = LogFailed \<and> message l = err))
            \<and> (\<forall>row \<in> set (steam_ids (store w1)). steam_id64 row = steam_id64 p \<longrightarrow> status row = Failed)"
    by blast
  from c have e: "(\<forall>pd t n. scrapePlayerStats (render_of e (steam_id64 p)) \<noteq> Inr (ScrapeOk pd t n))
                 \<or> db_fault e (steam_id64 p) SSetProcessing \<noteq> None
                 \<or> db_fault e (steam_id64 p) SSaveStats \<noteq> None
                 \<or> db_fault e (steam_id64 p) SSetCompleted \<noteq> None
                 \<or> db_fault e (steam_id64 p) SLogSuccess \<noteq> None
                 \<longrightarrow> \<not> item_success r"
    by (cases "item_success r") auto
  from a b d e show "\<exists>r w1.
            processSingleSteamId e (steam_id64 p) w0 = (Inr r, w1)
            \<and> processedCount (mgr w1) = processedCount (mgr w0) + 1
            \<and> (\<not> item_success r \<longrightarrow>
                 (\<exists>err. r = ItemFailed (steam_id64 p) err
                    \<and> (\<exists>x \<in> set (player_stats (store w1)). ps_steam_id64 x = steam_id64 p)
                    \<and> (\<forall>x \<in> set (player_stats (store w1)). ps_steam_id64 x = steam_id64 p \<longrightarrow>
                          \<not> scrape_success x \<and> error_message x = Some err)
                    \<and> (\<exists>l \<in> set (scrape_logs (store w1)).
                          log_steam_id64 l = steam_id64 p \<and> log_status l = LogFailed \<and> message l = err))
                 \<and> (\<forall>row \<in> set (steam_ids (store w1)).
                       steam_id64 row = steam_id64 p \<longrightarrow> status row = Failed))
            \<and> ((\<forall>pd t n. scrapePlayerStats (render_of e (steam_id64 p)) \<noteq> Inr (ScrapeOk pd t n))
                 \<or> db_fault e (steam_id64 p) SSetProcessing \<noteq> None
                 \<or> db_fault e (steam_id64 p) SSaveStats \<noteq> None
                 \<or> db_fault e (steam_id64 p) SSetCompleted \<noteq> None
                 \<or> db_fault e (steam_id64 p) SLogSuccess \<noteq> None
                 \<longrightarrow> \<not> item_success r)"
    by blast
next
  from batch_loop_prefix [OF assms(4) assms(2), of "[]"] obtain results w' where
    loop: "\<forall>rest. batch_loop e (batch @ rest) [] w = batch_loop e rest ([] @ results) w'"
    and len: "length results = length batch"
    and pc: "processedCount (mgr w') = processedCount (mgr w) + length batch"
    and sc: "successCount (mgr w') = successCount (mgr w) + length (filter item_success results)"
    and fc: "failureCount (mgr w')
          = failureCount (mgr w) + length (filter (\<lambda>r. \<not> item_success r) results)"
    and fin: "\<forall>sid \<in> steam_id64 ` set batch. \<forall>row \<in> set (rows_of (store w') sid).
            status row = Completed \<or> status row = Failed"
    by blast
  from loop have run: "batch_loop e batch [] w = (Inr results, w')"
    by (metis append_Nil append_Nil2 batch_loop.simps(1))
  have sum: "length (filter item_success results) + length (filter (\<lambda>r. \<not> item_success r) results)
      = length results"
    by (rule sum_length_filter_compl)
  have fin': "\<forall>row \<in> set (steam_ids (store w')). steam_id64 row \<in> steam_id64 ` set batch \<longrightarrow>
                  status row = Completed \<or> status row = Failed"
    using row_terminal [OF fin] by blast
  show "\<exists>r w'. processBatch e w = (Inr r, w')
            \<and> processed r = length batch
            \<and> processedCount (mgr w') = processedCount (mgr w) + length batch
            \<and> successCount (mgr w') + failureCount (mgr w')
                = successCount (mgr w) + failureCount (mgr w) + length batch
            \<and> (\<forall>row \<in> set (steam_ids (store w')). steam_id64 row \<in> steam_id64 ` set batch \<longrightarrow>
                  status row = Completed \<or> status row = Failed)"
  proof (cases "batch = []")
    case True
    with assms(1,3) have "processBatch e w
        = (Inr \<lparr>processed = 0, successful = None, failed = None, completed = True\<rparr>, w)"
      by (simp add: processBatch_def Let_def)
    with True show ?thesis by simp
  next
    case False
    from processBatch_nonempty [OF assms(1) assms(3) False run] len pc sc fc sum fin'
    show ?thesis by simp
  qed
qed

lemma ex_batch:
  "getPendingSteamIds (batchSize (mgr ex_world)) (steam_ids (store ex_world))
     = [ex_row 1 ''A'' Pending 5 20, ex_row 2 ''B'' Pending 5 30, ex_row 3 ''C'' Pending 1 10]"
  by code_simp

lemma ex_env_run_all:
  "(case processBatch ex_env ex_world of
      (res, w') \<Rightarrow> (res, processedCount (mgr w'), isRunning (mgr w'),
                    map status (steam_ids (store w')),
                    map scrape_success (player_stats (store w'))))
   = (Inr \<lparr>processed = 3, successful = Some 2, failed = Some 1, completed = False\<rparr>,
      3, True, [Completed, Failed, Completed], [True, False, True])"
  by code_simp

lemma ex_env_run:
  "fst (processBatch ex_env ex_world)
     = Inr \<lparr>processed = 3, successful = Some 2, failed = Some 1, completed = False\<rparr>"
  "map status (steam_ids (store (snd (processBatch ex_env ex_world))))
     = [Completed, Failed, Completed]"
  "map scrape_success (player_stats (store (snd (processBatch ex_env ex_world))))
     = [True, False, True]"
  using ex_env_run_all by (simp_all split: prod.splits)

lemma log_fault_run_all:
  "(case processBatch log_fault_env ex_world of
      (res, w') \<Rightarrow> (res, processedCount (mgr w'), isRunning (mgr w'),
                    map status (steam_ids (store w')),
                    map scrape_success (player_stats (store w'))))
   = (Inl ''ECONNRESET'', 1, True, [Completed, Pending, Pending], [True])"
  by code_simp

lemma log_fault_run:
  "fst (processBatch log_fault_env ex_world) = Inl ''ECONNRESET''"
  "processedCount (mgr (snd (processBatch log_fault_env ex_world))) = 1"
  "map status (steam_ids (store (snd (processBatch log_fault_env ex_world))))
     = [Completed, Pending, Pending]"
  using log_fault_run_all by (simp_all split: prod.splits)

lemma catch_fault_run_all:
  "(case processBatch catch_fault_env ex_world of
      (res, w') \<Rightarrow> (res, processedCount (mgr w'), isRunning (mgr w'),
                    map status (steam_ids (store w')),
                    map scrape_success (player_stats (store w'))))
   = (Inl ''ECONNRESET'', 2, True, [Completed, Processing, Pending], [True])"
  by code_simp

lemma catch_fault_run:
  "fst (processBatch catch_fault_env ex_world) = Inl ''ECONNRESET''"
  "processedCount (mgr (snd (processBatch catch_fault_env ex_world))) = 2"
  "map status (steam_ids (store (snd (processBatch catch_fault_env ex_world))))
     = [Completed, Processing, Pending]"
  using catch_fault_run_all by (simp_all split: prod.splits)

text \<open>
  C4 as stated does not hold. Take a batch of A, B and C in which the page of B does not load. When \<open>logScrapeStart\<close>
  throws for B, the exception leaves the per-item procedure and the batch: B is not counted
  as processed and B and C stay pending. When the failure upsert of B throws, in the
  \<open>else\<close> branch and again in the \<open>catch\<close>, the exception leaves the procedure as well:
  B stays in processing and C is never started.
\<close>

theorem failure_isolation_counterexample:
  "fst (processBatch log_fault_env ex_world) = Inl ''ECONNRESET''
   \<and> processedCount (mgr (snd (processBatch log_fault_env ex_world))) = 1
   \<and> map status (steam_ids (store (snd (processBatch log_fault_env ex_world))))
       = [Completed, Pending, Pending]
   \<and> fst (processBatch catch_fault_env ex_world) = Inl ''ECONNRESET''
   \<and> processedCount (mgr (snd (processBatch catch_fault_env ex_world))) = 2
   \<and> map status (steam_ids (store (snd (processBatch catch_fault_env ex_world))))
       = [Completed, Processing, Pending]"
  by (simp add: log_fault_run catch_fault_run)

theorem failures_are_isolated_witness:
  "select_fault ex_env = None
   \<and> isRunning (mgr ex_world)
   \<and> unguarded_ok ex_env ''B''
   \<and> fst (processBatch ex_env ex_world)
       = Inr \<lparr>processed = 3, successful = Some 2, failed = Some 1, completed = False\<rparr>
   \<and> processedCount (mgr (snd (processBatch ex_env ex_world))) = 3
   \<and> map status (steam_ids (store (snd (processBatch ex_env ex_world))))
       = [Completed, Failed, Completed]
   \<and> map scrape_success (player_stats (store (snd (processBatch ex_env ex_world))))
       = [True, False, True]"
proof -
  have h1: "select_fault ex_env = None" by (simp add: ex_env_def)
  have h2: "isRunning (mgr ex_world)" by (simp add: ex_world_def)
  have h4: "\<forall>p \<in> set [ex_row 1 ''A'' Pending 5 20, ex_row 2 ''B'' Pending 5 30,
                        ex_row 3 ''C'' Pending 1 10].
              unguarded_ok ex_env (steam_id64 p) \<and> \<not> stop_during ex_env (steam_id64 p)"
    by (simp add: ex_env_def unguarded_ok_def)
  have ok: "unguarded_ok ex_env ''B''" by (simp add: ex_env_def unguarded_ok_def)
  from failures_are_isolated [OF h1 h2 ex_batch h4]
  obtain r w' where "processBatch ex_env ex_world = (Inr r, w')"
    and "processedCount (mgr w') = processedCount (mgr ex_world) + length [ex_row 1 ''A'' Pending 5 20,
            ex_row 2 ''B'' Pending 5 30, ex_row 3 ''C'' Pending 1 10]"
    by blast
  then have pc: "processedCount (mgr (snd (processBatch ex_env ex_world))) = 3"
    by (simp add: ex_world_def)
  from h1 h2 ok pc ex_env_run show ?thesis by simp
qed















section \<open>The zero-field guard\<close>

lemma scrape_no_stats:
  assumes "fetched r = Loaded p" and "extractStats (document p) = []"
  shows "scrapePlayerStats r = finally_close r (ScrapeFailed no_stats_message (elapsed r))"
  using assms by (simp add: scrapePlayerStats_def evaluate_def Let_def)

lemma item_failed_without_faults:
  assumes "\<forall>s. db_fault e sid s = None"
    and "scrapePlayerStats (render_of e sid) = Inr (ScrapeFailed err t)"
  shows "fst (processSingleSteamId e sid w) = Inr (ItemFailed sid err)"
  using assms
  by (simp add: processSingleSteamId_def try_block_def failure_branch_def db_call_def
        Let_def split_beta)

text \<open>
  C3. When the page loads and the script finds no field, the scrape never returns a
  success: it returns the failure \<open>No stats data found\<close> (unless closing the page
  throws, and then it returns nothing). Whatever faults occur, every stat row that the
  per-item procedure leaves is a row that was there before or a failure row of the
  identifier. When nothing throws, the item's result is failed with that message, its stat
  row exists with \<open>success = false\<close> and the message, and its status is failed.
\<close>

theorem zero_fields_never_success:
  assumes "fetched (render_of e sid) = Loaded p" and "extractStats (document p) = []"
  shows "(\<forall>r. scrapePlayerStats (render_of e sid) = Inr r \<longrightarrow> \<not> success r)
     \<and> (close_fault (render_of e sid) = None \<longrightarrow>
           scrapePlayerStats (render_of e sid)
             = Inr (ScrapeFailed no_stats_message (elapsed (render_of e sid))))
     \<and> (\<forall>x \<in> set (player_stats (store (snd (processSingleSteamId e sid w)))).
           x \<in> set (player_stats (store w)) \<or> (ps_steam_id64 x = sid \<and> \<not> scrape_success x))
     \<and> (close_fault (render_of e sid) = None \<and> (\<forall>s. db_fault e sid s = None) \<longrightarrow>
           fst (processSingleSteamId e sid w) = Inr (ItemFailed sid no_stats_message)
           \<and> (\<exists>x \<in> set (player_stats (store (snd (processSingleSteamId e sid w)))).
                 ps_steam_id64 x = sid)
           \<and> (\<forall>x \<in> set (player_stats (store (snd (processSingleSteamId e sid w)))).
                 ps_steam_id64 x = sid \<longrightarrow>
                 \<not> scrape_success x \<and> error_message x = Some no_stats_message)
           \<and> (\<forall>row \<in> set (steam_ids (store (snd (processSingleSteamId e sid w)))).
                 steam_id64 row = sid \<longrightarrow> status row = Failed))"
proof -
  let ?r = "render_of e sid"
  note sc = scrape_no_stats [OF assms]
  obtain res w' where item: "processSingleSteamId e sid w = (res, w')"
    by (cases "processSingleSteamId e sid w") auto
  have a: "\<forall>r. scrapePlayerStats ?r = Inr r \<longrightarrow> \<not> success r"
    by (auto simp: sc finally_close_def split: option.splits)
  then have no: "\<forall>pd t n. scrapePlayerStats ?r \<noteq> Inr (ScrapeOk pd t n)"
    by (metis success.simps(1))
  have b: "close_fault ?r = None \<longrightarrow>
      scrapePlayerStats ?r = Inr (ScrapeFailed no_stats_message (elapsed ?r))"
    by (simp add: sc finally_close_def)
  have c: "\<forall>x \<in> set (player_stats (store w')).
      x \<in> set (player_stats (store w)) \<or> (ps_steam_id64 x = sid \<and> \<not> scrape_success x)"
    using ps_written [OF item no] by (simp add: written_as_failure_def)
  have d: "close_fault ?r = None \<and> (\<forall>s. db_fault e sid s = None) \<longrightarrow>
           res = Inr (ItemFailed sid no_stats_message)
           \<and> (\<exists>x \<in> set (player_stats (store w')). ps_steam_id64 x = sid)
           \<and> (\<forall>x \<in> set (player_stats (store w')). ps_steam_id64 x = sid \<longrightarrow>
                 \<not> scrape_success x \<and> error_message x = Some no_stats_message)
           \<and> (\<forall>row \<in> set (steam_ids (store w')). steam_id64 row = sid \<longrightarrow> status row = Failed)"
  proof
    assume h: "close_fault ?r = None \<and> (\<forall>s. db_fault e sid s = None)"
    with b have "scrapePlayerStats ?r = Inr (ScrapeFailed no_stats_message (elapsed ?r))"
      by simp
    from item_failed_without_faults [OF _ this, of w] h item
    have res: "res = Inr (ItemFailed sid no_stats_message)" by simp
    have st: "\<forall>row \<in> set (steam_ids (store w')). steam_id64 row = sid \<longrightarrow> status row = Failed"
      using ps_status [OF item res] rows_of_member by fastforce
    from res ps_row [OF item res] st
    show "res = Inr (ItemFailed sid no_stats_message)
           \<and> (\<exists>x \<in> set (player_stats (store w')). ps_steam_id64 x = sid)
           \<and> (\<forall>x \<in> set (player_stats (store w')). ps_steam_id64 x = sid \<longrightarrow>
                 \<not> scrape_success x \<and> error_message x = Some no_stats_message)
           \<and> (\<forall>row \<in> set (steam_ids (store w')). steam_id64 row = sid \<longrightarrow> status row = Failed)"
      by blast
  qed
  from a b c d item show ?thesis by simp
qed

lemma empty_page_stats: "extractStats (document (empty_page ''A'')) = []"
  by code_simp

lemma empty_env_run_all:
  "(case processSingleSteamId empty_env ''A'' ex_world of
      (res, w') \<Rightarrow> (res, map status (steam_ids (store w')),
                    map scrape_success (player_stats (store w')),
                    map error_message (player_stats (store w'))))
   = (Inr (ItemFailed ''A'' no_stats_message), [Failed, Pending, Pending], [False],
      [Some no_stats_message])"
  by code_simp

theorem zero_fields_never_success_witness:
  "fetched (render_of empty_env ''A'') = Loaded (empty_page ''A'')
   \<and> extractStats (document (empty_page ''A'')) = []
   \<and> scrapePlayerStats (render_of empty_env ''A'') = Inr (ScrapeFailed no_stats_message 1200)
   \<and> fst (processSingleSteamId empty_env ''A'' ex_world) = Inr (ItemFailed ''A'' no_stats_message)
   \<and> map scrape_success (player_stats (store (snd (processSingleSteamId empty_env ''A'' ex_world))))
       = [False]
   \<and> map status (steam_ids (store (snd (processSingleSteamId empty_env ''A'' ex_world))))
       = [Failed, Pending, Pending]"
proof -
  have h1: "fetched (render_of empty_env ''A'') = Loaded (empty_page ''A'')"
    by (simp add: empty_env_def ex_env_def ex_render_def)
  have cf: "close_fault (render_of empty_env ''A'') = None"
    by (simp add: empty_env_def ex_env_def ex_render_def)
  have el: "elapsed (render_of empty_env ''A'') = 1200"
    by (simp add: empty_env_def ex_env_def ex_render_def)
  have nf: "\<forall>s. db_fault empty_env ''A'' s = None"
    by (simp add: empty_env_def ex_env_def)
  from zero_fields_never_success [OF h1 empty_page_stats, of ex_world] cf nf el
  have "scrapePlayerStats (render_of empty_env ''A'') = Inr (ScrapeFailed no_stats_message 1200)"
    and "fst (processSingleSteamId empty_env ''A'' ex_world) = Inr (ItemFailed ''A'' no_stats_message)"
    by simp_all
  with h1 empty_page_stats empty_env_run_all show ?thesis
    by (simp split: prod.splits)
qed

end
